theory Spec2Isabelle
  imports Main "HOL-Library.AList"
begin

section \<open>Type engine: \<open>GenericType\<close> (typeChecker/types)\<close>

text \<open>
  Types are objects compared by reference (\<open>type === this\<close>), so a type is
  named by its address in a heap of \<open>GenericType\<close> objects. A JavaScript
  \<open>Error\<close> that is thrown is a value of \<open>js_error\<close>.
\<close>

type_synonym tref = nat

datatype js_error = JsError string

text \<open>\<open>OperatorKind\<close> is a numeric TypeScript enum declared in \<open>./types\<close>.\<close>

type_synonym OperatorKind = nat

text \<open>
  \<open>Operator\<close> (\<open>./operator\<close>): the only field the engine reads is
  \<open>otherOperand\<close>; the result type is carried along.
\<close>

record Operator =
  otherOperand :: "tref option"
  returnType :: tref

record GenericType =
  name :: string
  superType :: "tref option"
  coercibleTypes :: "tref set"
  suffixes :: "string \<rightharpoonup> tref"
  operators :: "OperatorKind \<rightharpoonup> Operator list"

type_synonym type_heap = "tref \<Rightarrow> GenericType"

text \<open>The constructor: no super type, no coercions, no suffixes, no operators.\<close>

definition newGenericType :: "string \<Rightarrow> GenericType" where
  "newGenericType n =
     \<lparr>name = n, superType = None, coercibleTypes = {}, suffixes = Map.empty,
      operators = Map.empty\<rparr>"

definition addSuper :: "type_heap \<Rightarrow> tref \<Rightarrow> tref \<Rightarrow> js_error + type_heap" where
  "addSuper h this ty =
     (case superType (h this) of
        Some _ \<Rightarrow> Inl (JsError (''Super type for '' @ name (h this) @ '' has already been set.''))
      | None \<Rightarrow> Inr (h(this := (h this)\<lparr>superType := Some ty\<rparr>)))"

partial_function (option) isSubtype :: "type_heap \<Rightarrow> tref \<Rightarrow> tref \<Rightarrow> bool option" where
  "isSubtype h this ty =
     (if ty = this then Some True
      else (case superType (h this) of
              None \<Rightarrow> Some False
            | Some s \<Rightarrow> isSubtype h s ty))"

partial_function (option) canCoerce :: "type_heap \<Rightarrow> tref \<Rightarrow> tref \<Rightarrow> bool option" where
  "canCoerce h this ty =
     (if ty = this then Some True
      else if ty \<in> coercibleTypes (h this) then Some True
      else (case superType (h this) of
              None \<Rightarrow> Some False
            | Some s \<Rightarrow> canCoerce h s ty))"

partial_function (option) getSuffix :: "type_heap \<Rightarrow> tref \<Rightarrow> string \<Rightarrow> tref option option" where
  "getSuffix h this n =
     (case suffixes (h this) n of
        Some suffix \<Rightarrow> Some (Some suffix)
      | None \<Rightarrow> (case superType (h this) of
                   None \<Rightarrow> Some None
                 | Some s \<Rightarrow> getSuffix h s n))"

text \<open>
  \<open>getOperator\<close>: no list for the kind gives \<open>undefined\<close>; otherwise the
  first operator whose other operand is the requested one; a list without such an
  operator falls through to the final \<open>throw\<close>.
\<close>

definition getOperator ::
  "type_heap \<Rightarrow> tref \<Rightarrow> OperatorKind \<Rightarrow> tref option \<Rightarrow> js_error + Operator option" where
  "getOperator h this kind other =
     (case operators (h this) kind of
        None \<Rightarrow> Inr None
      | Some ops \<Rightarrow>
          (case find (\<lambda>operator. other = otherOperand operator) ops of
             Some operator \<Rightarrow> Inr (Some operator)
           | None \<Rightarrow> Inl (JsError ''Method not implemented.'')))"

text \<open>
  \<open>addOperator\<close> for one \<open>(kind, operator)\<close> pair of its argument list: the
  list of the kind is created when absent, a second operator with the same other
  operand is refused, otherwise the operator is appended.
\<close>

definition addOperator1 ::
  "type_heap \<Rightarrow> tref \<Rightarrow> OperatorKind \<times> Operator \<Rightarrow> js_error + type_heap" where
  "addOperator1 h this ko =
     (let kind = fst ko; operator = snd ko;
          operatorsKind = (case operators (h this) kind of None \<Rightarrow> [] | Some ops \<Rightarrow> ops)
      in case find (\<lambda>existing. otherOperand existing = otherOperand operator) operatorsKind of
           Some existing \<Rightarrow>
             Inl (JsError (case otherOperand existing of
                           None \<Rightarrow> ''Operator already exists for '' @ name (h this)
                         | Some other \<Rightarrow> ''Operator already exists between '' @ name (h this)
                                          @ '' and '' @ name (h other)))
         | None \<Rightarrow>
             Inr (h(this := (h this)\<lparr>operators :=
                    (operators (h this))(kind \<mapsto> operatorsKind @ [operator])\<rparr>)))"

fun addOperator ::
  "type_heap \<Rightarrow> tref \<Rightarrow> (OperatorKind \<times> Operator) list \<Rightarrow> js_error + type_heap" where
  "addOperator h this [] = Inr h"
| "addOperator h this (ko # kos) =
     (case addOperator1 h this ko of
        Inl e \<Rightarrow> Inl e
      | Inr h' \<Rightarrow> addOperator h' this kos)"

text \<open>
  \<open>GenericType.toConcreteType\<close> has no body but its \<open>throw\<close>.
\<close>

definition GenericType_toConcreteType ::
  "type_heap \<Rightarrow> tref \<Rightarrow> (tref \<rightharpoonup> tref) \<Rightarrow> js_error + tref" where
  "GenericType_toConcreteType h this typeArguments = Inl (JsError ''Method not implemented.'')"

text \<open>
  \<open>GenericVariadicType\<close>: an object holding its element type and the memo table
  \<open>concreteTypes\<close>; \<open>toConcreteType\<close> allocates a new \<open>VariadicType\<close> only
  when the table has no entry. \<open>VariadicType\<close> extends it and returns itself.
\<close>

datatype variadic_class = GenericVariadic | Variadic

record VariadicObj =
  cls :: variadic_class
  elemType :: tref
  concreteTypes :: "tref \<rightharpoonup> nat"

record variadic_heap =
  objs :: "nat \<rightharpoonup> VariadicObj"
  nextRef :: nat

definition newVariadicType :: "variadic_heap \<Rightarrow> tref \<Rightarrow> nat \<times> variadic_heap" where
  "newVariadicType vh ty =
     (nextRef vh,
      vh\<lparr>objs := (objs vh)(nextRef vh \<mapsto> \<lparr>cls = Variadic, elemType = ty, concreteTypes = Map.empty\<rparr>),
         nextRef := Suc (nextRef vh)\<rparr>)"

definition toConcreteType :: "variadic_heap \<Rightarrow> nat \<Rightarrow> tref \<Rightarrow> (nat \<times> variadic_heap) option" where
  "toConcreteType vh this ty =
     (case objs vh this of
        None \<Rightarrow> None
      | Some obj \<Rightarrow>
          (case cls obj of
             Variadic \<Rightarrow> Some (this, vh)
           | GenericVariadic \<Rightarrow>
               (case concreteTypes obj ty of
                  Some cache \<Rightarrow> Some (cache, vh)
                | None \<Rightarrow>
                    (let (newType, vh1) = newVariadicType vh ty
                     in Some (newType,
                              vh1\<lparr>objs := (objs vh1)(this \<mapsto>
                                    obj\<lparr>concreteTypes := (concreteTypes obj)(ty \<mapsto> newType)\<rparr>)\<rparr>)))))"

section \<open>Properties of the type engine\<close>

definition superRel :: "type_heap \<Rightarrow> (tref \<times> tref) set" where
  "superRel h = {(a, b). superType (h a) = Some b}"

lemma isSubtype_refl: "isSubtype h t t = Some True"
  by (subst isSubtype.simps) simp

lemma isSubtype_step:
  "a \<noteq> b \<Longrightarrow> superType (h a) = Some s \<Longrightarrow> isSubtype h a b = isSubtype h s b"
  by (subst isSubtype.simps) auto

lemma isSubtype_of_chain:
  "(a, b) \<in> (superRel h)\<^sup>* \<Longrightarrow> isSubtype h a b = Some True"
proof (induction rule: converse_rtrancl_induct)
  case base
  show ?case by (rule isSubtype_refl)
next
  case (step x y)
  then have sup: "superType (h x) = Some y" by (simp add: superRel_def)
  show ?case
  proof (cases "x = b")
    case True
    then show ?thesis by (simp add: isSubtype_refl)
  next
    case False
    with sup step.IH show ?thesis by (simp add: isSubtype_step)
  qed
qed

lemma isSubtype_chain_aux:
  assumes "isSubtype h a b = Some r"
  shows "r \<longrightarrow> (a, b) \<in> (superRel h)\<^sup>*"
proof (rule isSubtype.raw_induct
    [where P = "\<lambda>h a b r. r \<longrightarrow> (a, b) \<in> (superRel h)\<^sup>*", OF _ assms])
  fix f h a b r
  assume IH: "\<And>h a b r. f h a b = Some r \<Longrightarrow> r \<longrightarrow> (a, b) \<in> (superRel h)\<^sup>*"
    and step: "(if b = a then Some True
                else case superType (h a) of None \<Rightarrow> Some False | Some s \<Rightarrow> f h s b) = Some r"
  show "r \<longrightarrow> (a, b) \<in> (superRel h)\<^sup>*"
  proof (cases "b = a")
    case True
    then show ?thesis by simp
  next
    case False
    show ?thesis
    proof (cases "superType (h a)")
      case None
      with False step show ?thesis by auto
    next
      case (Some s)
      with False step have "f h s b = Some r" by simp
      then have "r \<longrightarrow> (s, b) \<in> (superRel h)\<^sup>*" by (rule IH)
      moreover have "(a, s) \<in> superRel h" using Some by (simp add: superRel_def)
      ultimately show ?thesis by (auto intro: converse_rtrancl_into_rtrancl)
    qed
  qed
qed

lemma isSubtype_iff_chain:
  "isSubtype h a b = Some True \<longleftrightarrow> (a, b) \<in> (superRel h)\<^sup>*"
  using isSubtype_chain_aux [of h a b True] isSubtype_of_chain [of a b h] by blast

lemma canCoerce_of_chain:
  "(a, b) \<in> (superRel h)\<^sup>* \<Longrightarrow> canCoerce h a b = Some True"
proof (induction rule: converse_rtrancl_induct)
  case base
  show ?case by (subst canCoerce.simps) simp
next
  case (step x y)
  then have sup: "superType (h x) = Some y" by (simp add: superRel_def)
  show ?case using sup step.IH by (subst canCoerce.simps) simp
qed

text \<open>
  C5. \<open>isSubtype\<close> is reflexive, it is transitive, it answers \<open>true\<close> exactly
  for the types on the chain of declared super types (the type itself, its super type,
  the super type of that, and so on), and \<open>canCoerce\<close> answers \<open>true\<close> wherever
  \<open>isSubtype\<close> does.
\<close>

theorem isSubtype_reflexive_transitive_coerce:
  "isSubtype h t t = Some True \<and>
   (isSubtype h a b = Some True \<and> isSubtype h b c = Some True \<longrightarrow> isSubtype h a c = Some True) \<and>
   (isSubtype h a b = Some True \<longleftrightarrow> (a, b) \<in> (superRel h)\<^sup>*) \<and>
   (isSubtype h a b = Some True \<longrightarrow> canCoerce h a b = Some True)"
proof (intro conjI impI)
  show "isSubtype h t t = Some True" by (rule isSubtype_refl)
next
  assume "isSubtype h a b = Some True \<and> isSubtype h b c = Some True"
  then have "(a, b) \<in> (superRel h)\<^sup>*" and "(b, c) \<in> (superRel h)\<^sup>*"
    by (simp_all add: isSubtype_iff_chain)
  then have "(a, c) \<in> (superRel h)\<^sup>*" by (rule rtrancl_trans)
  then show "isSubtype h a c = Some True" by (simp add: isSubtype_iff_chain)
next
  show "isSubtype h a b = Some True \<longleftrightarrow> (a, b) \<in> (superRel h)\<^sup>*"
    by (rule isSubtype_iff_chain)
next
  assume "isSubtype h a b = Some True"
  then show "canCoerce h a b = Some True"
    by (simp add: isSubtype_iff_chain canCoerce_of_chain)
qed

text \<open>
  Three types, each the declared super type of the one before:
  \<open>0 \<rightarrow> 1 \<rightarrow> 2\<close>, and an unrelated type \<open>3\<close>.
\<close>

definition chain_heap :: type_heap where
  "chain_heap =
     (\<lambda>_. newGenericType ''structure'')
       (0 := (newGenericType ''list'')\<lparr>superType := Some 1\<rparr>,
        1 := (newGenericType ''enumerable'')\<lparr>superType := Some 2\<rparr>)"

lemma chain_heap_0_1: "isSubtype chain_heap 0 1 = Some True"
  by (simp add: isSubtype.simps chain_heap_def newGenericType_def)

lemma chain_heap_1_2: "isSubtype chain_heap 1 2 = Some True"
  by (simp add: isSubtype.simps chain_heap_def newGenericType_def)

theorem isSubtype_reflexive_transitive_coerce_witness:
  "isSubtype chain_heap 0 1 = Some True \<and> isSubtype chain_heap 1 2 = Some True \<and>
   isSubtype chain_heap 0 2 = Some True \<and> (0, 1) \<in> (superRel chain_heap)\<^sup>* \<and>
   canCoerce chain_heap 0 1 = Some True"
  using isSubtype_reflexive_transitive_coerce [of chain_heap 0 0 1 2]
    chain_heap_0_1 chain_heap_1_2
  by simp

subsection \<open>Instantiation\<close>

lemma toConcreteType_memoized:
  assumes "toConcreteType vh this ty = Some (r, vh')"
  shows "toConcreteType vh' this ty = Some (r, vh')"
proof -
  from assms obtain obj where obj: "objs vh this = Some obj"
    by (auto simp: toConcreteType_def split: option.splits)
  show ?thesis
  proof (cases "cls obj")
    case Variadic
    with assms obj show ?thesis by (auto simp: toConcreteType_def)
  next
    case GenericVariadic
    show ?thesis
    proof (cases "concreteTypes obj ty")
      case (Some cache)
      with assms obj GenericVariadic show ?thesis by (auto simp: toConcreteType_def)
    next
      case None
      with assms obj GenericVariadic show ?thesis
        by (auto simp: toConcreteType_def newVariadicType_def)
    qed
  qed
qed

text \<open>
  C6. Instantiating a generic type twice with the same argument returns the same
  object. \<open>GenericVariadicType.toConcreteType\<close> does so (lemma
  \<open>toConcreteType_memoized\<close>); \<open>GenericType.toConcreteType\<close> returns no
  object at all: every call ends in its \<open>throw\<close>.
\<close>

theorem GenericType_toConcreteType_throws:
  "GenericType_toConcreteType (\<lambda>_. newGenericType ''list'') 0 [0 \<mapsto> 1]
     = Inl (JsError ''Method not implemented.'')"
  by (simp add: GenericType_toConcreteType_def)

subsection \<open>Operator lookup\<close>

lemma getOperator_no_kind:
  "operators (h this) kind = None \<Longrightarrow> getOperator h this kind other = Inr None"
  by (simp add: getOperator_def)

lemma getOperator_found:
  assumes "operators (h this) kind = Some ops"
    and "operator \<in> set ops" and "otherOperand operator = other"
  shows "\<exists>found. getOperator h this kind other = Inr (Some found)
           \<and> found \<in> set ops \<and> otherOperand found = other"
proof -
  from assms(2,3) obtain found where
    f: "find (\<lambda>operator. other = otherOperand operator) ops = Some found"
    by (cases "find (\<lambda>operator. other = otherOperand operator) ops")
       (auto simp: find_None_iff)
  then have "found \<in> set ops \<and> otherOperand found = other"
    by (auto simp: find_Some_iff)
  with f assms(1) show ?thesis by (simp add: getOperator_def)
qed

lemma getOperator_not_found:
  assumes "operators (h this) kind = Some ops"
    and "\<forall>operator \<in> set ops. otherOperand operator \<noteq> other"
  shows "getOperator h this kind other = Inl (JsError ''Method not implemented.'')"
proof -
  from assms(2) have "find (\<lambda>operator. other = otherOperand operator) ops = None"
    by (auto simp: find_None_iff)
  with assms(1) show ?thesis by (simp add: getOperator_def)
qed

text \<open>
  C7. \<open>getOperator\<close> returns the registered operator, or nothing when none is
  registered, and does not fail. On a type whose only \<open>plus\<close> operator (kind
  \<open>0\<close>) takes the type \<open>0\<close> as its other operand, asking for the
  \<open>plus\<close> operator with other operand \<open>1\<close> throws.
\<close>

theorem getOperator_other_operand_throws:
  "(case addOperator (\<lambda>_. newGenericType ''scalar'') 0
           [(0, \<lparr>otherOperand = Some 0, returnType = 0\<rparr>)] of
      Inl e \<Rightarrow> Inl e
    | Inr h \<Rightarrow> getOperator h 0 0 (Some 1))
   = Inl (JsError ''Method not implemented.'')"
  by (simp add: addOperator1_def getOperator_def newGenericType_def)

section \<open>Tokens and diagnostics\<close>

text \<open>
  \<open>TokenType\<close> (entities/tokentypes) is a numeric enum. The kinds the parser
  names are the constants \<open>tt_\<close> followed by the source's name; every other number
  is some other member of the enum.
\<close>

type_synonym TokenType = nat

named_theorems tt_defs

definition tt_eof :: TokenType where [tt_defs]: "tt_eof = 0"
definition tt_declare :: TokenType where [tt_defs]: "tt_declare = 1"
definition tt_local :: TokenType where [tt_defs]: "tt_local = 2"
definition tt_global :: TokenType where [tt_defs]: "tt_global = 3"
definition tt_parameter :: TokenType where [tt_defs]: "tt_parameter = 4"
definition tt_function :: TokenType where [tt_defs]: "tt_function = 5"
definition tt_lock :: TokenType where [tt_defs]: "tt_lock = 6"
definition tt_curlyOpen :: TokenType where [tt_defs]: "tt_curlyOpen = 7"
definition tt_curlyClose :: TokenType where [tt_defs]: "tt_curlyClose = 8"
definition tt_bracketOpen :: TokenType where [tt_defs]: "tt_bracketOpen = 9"
definition tt_bracketClose :: TokenType where [tt_defs]: "tt_bracketClose = 10"
definition tt_squareOpen :: TokenType where [tt_defs]: "tt_squareOpen = 11"
definition tt_squareClose :: TokenType where [tt_defs]: "tt_squareClose = 12"
definition tt_arrayIndex :: TokenType where [tt_defs]: "tt_arrayIndex = 13"
definition tt_integer :: TokenType where [tt_defs]: "tt_integer = 14"
definition tt_double :: TokenType where [tt_defs]: "tt_double = 15"
definition tt_true :: TokenType where [tt_defs]: "tt_true = 16"
definition tt_false :: TokenType where [tt_defs]: "tt_false = 17"
definition tt_identifier :: TokenType where [tt_defs]: "tt_identifier = 18"
definition tt_fileIdentifier :: TokenType where [tt_defs]: "tt_fileIdentifier = 19"
definition tt_string :: TokenType where [tt_defs]: "tt_string = 20"
definition tt_stage :: TokenType where [tt_defs]: "tt_stage = 21"
definition tt_clearscreen :: TokenType where [tt_defs]: "tt_clearscreen = 22"
definition tt_preserve :: TokenType where [tt_defs]: "tt_preserve = 23"
definition tt_reboot :: TokenType where [tt_defs]: "tt_reboot = 24"
definition tt_shutdown :: TokenType where [tt_defs]: "tt_shutdown = 25"
definition tt_edit :: TokenType where [tt_defs]: "tt_edit = 26"
definition tt_add :: TokenType where [tt_defs]: "tt_add = 27"
definition tt_remove :: TokenType where [tt_defs]: "tt_remove = 28"
definition tt_unset :: TokenType where [tt_defs]: "tt_unset = 29"
definition tt_unlock :: TokenType where [tt_defs]: "tt_unlock = 30"
definition tt_set :: TokenType where [tt_defs]: "tt_set = 31"
definition tt_atSign :: TokenType where [tt_defs]: "tt_atSign = 32"
definition tt_if :: TokenType where [tt_defs]: "tt_if = 33"
definition tt_else :: TokenType where [tt_defs]: "tt_else = 34"
definition tt_until :: TokenType where [tt_defs]: "tt_until = 35"
definition tt_from :: TokenType where [tt_defs]: "tt_from = 36"
definition tt_when :: TokenType where [tt_defs]: "tt_when = 37"
definition tt_then :: TokenType where [tt_defs]: "tt_then = 38"
definition tt_return :: TokenType where [tt_defs]: "tt_return = 39"
definition tt_break :: TokenType where [tt_defs]: "tt_break = 40"
definition tt_switch :: TokenType where [tt_defs]: "tt_switch = 41"
definition tt_for :: TokenType where [tt_defs]: "tt_for = 42"
definition tt_on :: TokenType where [tt_defs]: "tt_on = 43"
definition tt_off :: TokenType where [tt_defs]: "tt_off = 44"
definition tt_toggle :: TokenType where [tt_defs]: "tt_toggle = 45"
definition tt_wait :: TokenType where [tt_defs]: "tt_wait = 46"
definition tt_step :: TokenType where [tt_defs]: "tt_step = 47"
definition tt_do :: TokenType where [tt_defs]: "tt_do = 48"
definition tt_in :: TokenType where [tt_defs]: "tt_in = 49"
definition tt_log :: TokenType where [tt_defs]: "tt_log = 50"
definition tt_copy :: TokenType where [tt_defs]: "tt_copy = 51"
definition tt_rename :: TokenType where [tt_defs]: "tt_rename = 52"
definition tt_delete :: TokenType where [tt_defs]: "tt_delete = 53"
definition tt_run :: TokenType where [tt_defs]: "tt_run = 54"
definition tt_runPath :: TokenType where [tt_defs]: "tt_runPath = 55"
definition tt_runOncePath :: TokenType where [tt_defs]: "tt_runOncePath = 56"
definition tt_compile :: TokenType where [tt_defs]: "tt_compile = 57"
definition tt_list :: TokenType where [tt_defs]: "tt_list = 58"
definition tt_print :: TokenType where [tt_defs]: "tt_print = 59"
definition tt_once :: TokenType where [tt_defs]: "tt_once = 60"
definition tt_volume :: TokenType where [tt_defs]: "tt_volume = 61"
definition tt_file :: TokenType where [tt_defs]: "tt_file = 62"
definition tt_at :: TokenType where [tt_defs]: "tt_at = 63"
definition tt_period :: TokenType where [tt_defs]: "tt_period = 64"
definition tt_comma :: TokenType where [tt_defs]: "tt_comma = 65"
definition tt_colon :: TokenType where [tt_defs]: "tt_colon = 66"
definition tt_is :: TokenType where [tt_defs]: "tt_is = 67"
definition tt_to :: TokenType where [tt_defs]: "tt_to = 68"
definition tt_all :: TokenType where [tt_defs]: "tt_all = 69"
definition tt_lazyGlobal :: TokenType where [tt_defs]: "tt_lazyGlobal = 70"
definition tt_or :: TokenType where [tt_defs]: "tt_or = 71"
definition tt_and :: TokenType where [tt_defs]: "tt_and = 72"
definition tt_equal :: TokenType where [tt_defs]: "tt_equal = 73"
definition tt_notEqual :: TokenType where [tt_defs]: "tt_notEqual = 74"
definition tt_less :: TokenType where [tt_defs]: "tt_less = 75"
definition tt_greater :: TokenType where [tt_defs]: "tt_greater = 76"
definition tt_lessEqual :: TokenType where [tt_defs]: "tt_lessEqual = 77"
definition tt_greaterEqual :: TokenType where [tt_defs]: "tt_greaterEqual = 78"
definition tt_plus :: TokenType where [tt_defs]: "tt_plus = 79"
definition tt_minus :: TokenType where [tt_defs]: "tt_minus = 80"
definition tt_multi :: TokenType where [tt_defs]: "tt_multi = 81"
definition tt_div :: TokenType where [tt_defs]: "tt_div = 82"
definition tt_not :: TokenType where [tt_defs]: "tt_not = 83"
definition tt_defined :: TokenType where [tt_defs]: "tt_defined = 84"
definition tt_power :: TokenType where [tt_defs]: "tt_power = 85"

record Marker =
  line :: nat
  character :: nat

text \<open>
  A token: its kind, its text, where it starts and ends, its document, and the slot
  \<open>tracker\<close>, the one field that resolution writes.
\<close>

record IToken =
  tokenType :: TokenType
  lexeme :: string
  start :: Marker
  tend :: Marker
  uri :: string
  tracker :: "nat option"

datatype DiagnosticSeverity = Error | Warning | Information | Hint

record Diagnostic =
  drange :: "Marker \<times> Marker"
  message :: string
  severity :: DiagnosticSeverity
  relatedInformation :: "(string \<times> (Marker \<times> Marker) \<times> string) list"

text \<open>
  \<open>createDiagnostic\<close> (utilities/diagnosticsUtilities) builds the record from the
  range of the token it is given.
\<close>

definition createDiagnostic ::
  "IToken \<Rightarrow> string \<Rightarrow> DiagnosticSeverity \<Rightarrow> (string \<times> (Marker \<times> Marker) \<times> string) list
     \<Rightarrow> Diagnostic" where
  "createDiagnostic tok msg sev related =
     \<lparr>drange = (start tok, tend tok), message = msg, severity = sev,
      relatedInformation = related\<rparr>"

section \<open>Symbol table builder (analysis/symbolTableBuilder.ts)\<close>

datatype ScopeType = ScopeType_local | ScopeType_global

datatype SymbolState = SymbolState_declared | SymbolState_used

datatype KsSymbolKind =
  kind_variable | kind_function | kind_lock | kind_parameter | kind_suffix

text \<open>
  A symbol holds the address of its name token (tokens are shared objects, kept in
  the builder's token heap). \<open>KsSymbol = KsVariable | KsFunction | KsLock | KsParameter\<close>.
\<close>

datatype KsSymbol =
    KsVariable ScopeType nat
  | KsFunction ScopeType nat "KsSymbol list" bool
  | KsLock ScopeType nat
  | KsParameter nat bool SymbolState

fun symbol_tag :: "KsSymbol \<Rightarrow> KsSymbolKind" where
  "symbol_tag (KsVariable _ _) = kind_variable"
| "symbol_tag (KsFunction _ _ _ _) = kind_function"
| "symbol_tag (KsLock _ _) = kind_lock"
| "symbol_tag (KsParameter _ _ _) = kind_parameter"

fun symbol_name :: "KsSymbol \<Rightarrow> nat" where
  "symbol_name (KsVariable _ n) = n"
| "symbol_name (KsFunction _ n _ _) = n"
| "symbol_name (KsLock _ n) = n"
| "symbol_name (KsParameter n _ _) = n"

text \<open>
  Modelled from the spec: the type guards \<open>isKsVariable\<close>, \<open>isKsLock\<close> and
  \<open>isKsParameter\<close> of entities/entityHelpers are not under src. By the spec's data
  model a declared symbol is a variable, a function, a lock or a parameter; each guard
  recognises the symbols of its own kind.
\<close>

definition isKsVariable :: "KsSymbol \<Rightarrow> bool" where
  "isKsVariable symbol = (symbol_tag symbol = kind_variable)"

definition isKsLock :: "KsSymbol \<Rightarrow> bool" where
  "isKsLock symbol = (symbol_tag symbol = kind_lock)"

definition isKsParameter :: "KsSymbol \<Rightarrow> bool" where
  "isKsParameter symbol = (symbol_tag symbol = kind_parameter)"

text \<open>
  The tracker of a declared symbol (\<open>./tracker\<close>): the symbol, its declared type,
  and the lists of sets and usages; a usage is the token (by address) and the expression
  it was used in. Trackers are shared objects too: a scope maps a name to the address of
  a tracker.
\<close>

record KsSymbolTracker =
  declared :: KsSymbol
  declaredType :: "nat option"
  sets :: "(nat \<times> nat option) list"
  usages :: "(nat \<times> nat option) list"

definition newKsSymbolTracker :: "KsSymbol \<Rightarrow> nat option \<Rightarrow> KsSymbolTracker" where
  "newKsSymbolTracker symbol ty =
     \<lparr>declared = symbol, declaredType = ty, sets = [], usages = []\<rparr>"

definition createEnitityChange :: "nat \<Rightarrow> nat option \<Rightarrow> nat \<times> nat option" where
  "createEnitityChange tok expr = (tok, expr)"

text \<open>
  A scope is a JavaScript \<open>Map\<close> from names to trackers; it is iterated in
  insertion order, so it is an association list: \<open>get\<close> is \<^const>\<open>map_of\<close>,
  \<open>set\<close> is \<^const>\<open>AList.update\<close> (a present key keeps its place, a new one
  goes last), \<open>values()\<close> is \<open>map snd\<close>.
\<close>

type_synonym IScope = "(string \<times> nat) list"

datatype ScopePosition = GlobalPosition | RealPosition Marker Marker

datatype IScopeNode =
  ScopeNode (position: ScopePosition) (scope: IScope) (children: "IScopeNode list")

record SymbolTable =
  tableRoot :: IScopeNode
  tableUri :: string

record SymbolTableBuilder =
  builderUri :: string
  rootScope :: IScopeNode
  activeScopePath :: "nat list"
  backTrackPath :: "nat list"
  childSymbolTables :: "SymbolTable list"
  trackers :: "nat \<Rightarrow> KsSymbolTracker"
  nextTracker :: nat
  tokenHeap :: "nat \<Rightarrow> IToken"

text \<open>
  The constructor: an empty global scope at the root, empty paths, no child tables.
  The two heaps are those of the running program.
\<close>

definition newSymbolTableBuilder ::
  "string \<Rightarrow> (nat \<Rightarrow> KsSymbolTracker) \<Rightarrow> nat \<Rightarrow> (nat \<Rightarrow> IToken) \<Rightarrow> SymbolTableBuilder" where
  "newSymbolTableBuilder u trs next toks =
     \<lparr>builderUri = u, rootScope = ScopeNode GlobalPosition [] [],
      activeScopePath = [], backTrackPath = [], childSymbolTables = [],
      trackers = trs, nextTracker = next, tokenHeap = toks\<rparr>"

definition build :: "SymbolTableBuilder \<Rightarrow> SymbolTable" where
  "build b = \<lparr>tableRoot = rootScope b, tableUri = builderUri b\<rparr>"

definition rewindScope :: "SymbolTableBuilder \<Rightarrow> SymbolTableBuilder" where
  "rewindScope b = b\<lparr>activeScopePath := [], backTrackPath := []\<rparr>"

definition addScope :: "SymbolTableBuilder \<Rightarrow> SymbolTable \<Rightarrow> SymbolTableBuilder" where
  "addScope b symbolTable =
     (if symbolTable \<in> set (childSymbolTables b) then b
      else b\<lparr>childSymbolTables := childSymbolTables b @ [symbolTable]\<rparr>)"

text \<open>
  Walking a path of child indices from a node; \<open>None\<close> when an index names no child
  (the source throws \<open>Unable to find scope node\<close>).
\<close>

fun nodeAt :: "IScopeNode \<Rightarrow> nat list \<Rightarrow> IScopeNode option" where
  "nodeAt node [] = Some node"
| "nodeAt node (scopeId # path) =
     (if scopeId < length (children node) then nodeAt (children node ! scopeId) path
      else None)"

text \<open>The scopes met on the way, the start node's scope first.\<close>

fun scopesAlong :: "IScopeNode \<Rightarrow> nat list \<Rightarrow> IScope list option" where
  "scopesAlong node [] = Some [scope node]"
| "scopesAlong node (scopeId # path) =
     (if scopeId < length (children node)
      then map_option (\<lambda>rest. scope node # rest) (scopesAlong (children node ! scopeId) path)
      else None)"

text \<open>Replacing the node at the end of a path (the effect of mutating that node).\<close>

fun updateAt :: "IScopeNode \<Rightarrow> nat list \<Rightarrow> (IScopeNode \<Rightarrow> IScopeNode) \<Rightarrow> IScopeNode" where
  "updateAt node [] f = f node"
| "updateAt node (scopeId # path) f =
     (if scopeId < length (children node)
      then ScopeNode (position node) (scope node)
             ((children node)[scopeId := updateAt (children node ! scopeId) path f])
      else node)"

definition activeScopeNode :: "SymbolTableBuilder \<Rightarrow> js_error + IScopeNode" where
  "activeScopeNode b =
     (case nodeAt (rootScope b) (activeScopePath b) of
        None \<Rightarrow> Inl (JsError ''Unable to find scope node for path'')
      | Some scopeNode \<Rightarrow> Inr scopeNode)"

definition activeScopeStack :: "SymbolTableBuilder \<Rightarrow> js_error + IScope list" where
  "activeScopeStack b =
     (case scopesAlong (rootScope b) (activeScopePath b) of
        None \<Rightarrow> Inl (JsError ''Unable to find scope stack for path'')
      | Some scopes \<Rightarrow> Inr scopes)"

definition peekScope :: "SymbolTableBuilder \<Rightarrow> js_error + IScope" where
  "peekScope b = map_sum id scope (activeScopeNode b)"

text \<open>
  \<open>beginScope\<close>: the index of the scope to enter is one more than the index the
  backtrack path holds at this depth, or \<open>0\<close> when it holds none; a child is
  created only when the active node has none at that index.
\<close>

definition beginScope ::
  "SymbolTableBuilder \<Rightarrow> Marker \<times> Marker \<Rightarrow> js_error + SymbolTableBuilder" where
  "beginScope b rng =
     (let depth = length (activeScopePath b);
          next = (if depth < length (backTrackPath b) then backTrackPath b ! depth + 1 else 0)
      in case activeScopeNode b of
           Inl e \<Rightarrow> Inl e
         | Inr activeNode \<Rightarrow>
             (let root = (if next < length (children activeNode) then rootScope b
                          else updateAt (rootScope b) (activeScopePath b)
                                 (\<lambda>n. ScopeNode (position n) (scope n)
                                        (children n @ [ScopeNode (RealPosition (fst rng) (snd rng)) [] []])));
                  path = activeScopePath b @ [next]
              in Inr (b\<lparr>rootScope := root, activeScopePath := path, backTrackPath := path\<rparr>)))"

text \<open>
  The body of the loop of \<open>endScope\<close> for one tracker. \<open>cooked\<close> is the
  property of that name of a lock symbol (class \<open>KsLock\<close>, entities/lock).
\<close>

definition scopeError ::
  "(KsSymbol \<Rightarrow> bool) \<Rightarrow> SymbolTableBuilder \<Rightarrow> nat \<Rightarrow> js_error + Diagnostic list" where
  "scopeError cooked b t =
     (let symbol = declared (trackers b t); nm = tokenHeap b (symbol_name symbol)
      in case symbol_tag symbol of
           kind_function \<Rightarrow> Inr []
         | kind_parameter \<Rightarrow>
             (if length (usages (trackers b t)) = 0
              then Inr [createDiagnostic nm (''Parameter '' @ lexeme nm @ '' was not used.'') Error []]
              else Inr [])
         | kind_lock \<Rightarrow>
             (if \<not> cooked symbol \<and> length (usages (trackers b t)) = 0
              then Inr [createDiagnostic nm (''Lock '' @ lexeme nm @ '' was not used.'') Error []]
              else Inr [])
         | kind_variable \<Rightarrow>
             (if length (usages (trackers b t)) = 0
              then Inr [createDiagnostic nm (''Variable '' @ lexeme nm @ '' was not used.'') Error []]
              else Inr [])
         | kind_suffix \<Rightarrow> Inl (JsError []))"

fun scopeErrors ::
  "(KsSymbol \<Rightarrow> bool) \<Rightarrow> SymbolTableBuilder \<Rightarrow> nat list \<Rightarrow> js_error + Diagnostic list" where
  "scopeErrors cooked b [] = Inr []"
| "scopeErrors cooked b (t # ts) =
     (case scopeError cooked b t of
        Inl e \<Rightarrow> Inl e
      | Inr errs \<Rightarrow>
          (case scopeErrors cooked b ts of
             Inl e \<Rightarrow> Inl e
           | Inr rest \<Rightarrow> Inr (errs @ rest)))"

definition endScope ::
  "(KsSymbol \<Rightarrow> bool) \<Rightarrow> SymbolTableBuilder \<Rightarrow> js_error + Diagnostic list \<times> SymbolTableBuilder" where
  "endScope cooked b =
     (case activeScopeNode b of
        Inl e \<Rightarrow> Inl e
      | Inr node \<Rightarrow>
          (let b' = b\<lparr>activeScopePath := butlast (activeScopePath b)\<rparr>
           in case scopeErrors cooked b' (map snd (scope node)) of
                Inl e \<Rightarrow> Inl e
              | Inr errors \<Rightarrow> Inr (errors, b')))"

definition scopeDepth :: "SymbolTableBuilder \<Rightarrow> js_error + nat" where
  "scopeDepth b = map_sum id length (activeScopeStack b)"

definition isFileScope :: "SymbolTableBuilder \<Rightarrow> js_error + bool" where
  "isFileScope b = map_sum id (\<lambda>d. d = 2) (scopeDepth b)"

text \<open>The first scope of a list that knows the name.\<close>

fun lookupScopes :: "IScope list \<Rightarrow> string \<Rightarrow> nat option" where
  "lookupScopes [] nm = None"
| "lookupScopes (s # ss) nm =
     (case map_of s nm of
        Some t \<Rightarrow> Some t
      | None \<Rightarrow> lookupScopes ss nm)"

text \<open>
  \<open>lookup\<close>: a local lookup asks the innermost scope only; a global one walks the
  active stack from the innermost scope outwards, then the root scopes of the child
  tables.
\<close>

definition lookup :: "SymbolTableBuilder \<Rightarrow> nat \<Rightarrow> ScopeType \<Rightarrow> js_error + nat option" where
  "lookup b token sc =
     (case sc of
        ScopeType_local \<Rightarrow>
          (case peekScope b of
             Inl e \<Rightarrow> Inl e
           | Inr s \<Rightarrow> Inr (map_of s (lexeme (tokenHeap b token))))
      | ScopeType_global \<Rightarrow>
          (case activeScopeStack b of
             Inl e \<Rightarrow> Inl e
           | Inr scopes \<Rightarrow>
               (case lookupScopes (rev scopes) (lexeme (tokenHeap b token)) of
                  Some t \<Rightarrow> Inr (Some t)
                | None \<Rightarrow>
                    Inr (lookupScopes (map (\<lambda>child. scope (tableRoot child)) (childSymbolTables b))
                           (lexeme (tokenHeap b token))))))"

definition lookupVariableTracker ::
  "SymbolTableBuilder \<Rightarrow> nat \<Rightarrow> ScopeType \<Rightarrow> js_error + nat option" where
  "lookupVariableTracker b token sc =
     (case lookup b token sc of
        Inl e \<Rightarrow> Inl e
      | Inr None \<Rightarrow> Inr None
      | Inr (Some t) \<Rightarrow> Inr (if isKsVariable (declared (trackers b t)) then Some t else None))"

definition lookupFunctionTracker ::
  "SymbolTableBuilder \<Rightarrow> nat \<Rightarrow> ScopeType \<Rightarrow> js_error + nat option" where
  "lookupFunctionTracker b token sc =
     (case lookup b token sc of
        Inl e \<Rightarrow> Inl e
      | Inr None \<Rightarrow> Inr None
      | Inr (Some t) \<Rightarrow> Inr (if isKsVariable (declared (trackers b t)) then Some t else None))"

definition lookupLockTracker ::
  "SymbolTableBuilder \<Rightarrow> nat \<Rightarrow> ScopeType \<Rightarrow> js_error + nat option" where
  "lookupLockTracker b token sc =
     (case lookup b token sc of
        Inl e \<Rightarrow> Inl e
      | Inr None \<Rightarrow> Inr None
      | Inr (Some t) \<Rightarrow> Inr (if isKsLock (declared (trackers b t)) then Some t else None))"

definition lookupParameterTracker ::
  "SymbolTableBuilder \<Rightarrow> nat \<Rightarrow> ScopeType \<Rightarrow> js_error + nat option" where
  "lookupParameterTracker b token sc =
     (case lookup b token sc of
        Inl e \<Rightarrow> Inl e
      | Inr None \<Rightarrow> Inr None
      | Inr (Some t) \<Rightarrow> Inr (if isKsParameter (declared (trackers b t)) then Some t else None))"

text \<open>
  \<open>KsSymbolKind\<close> is a numeric enum: a template string prints a kind as its number,
  and \<open>KsSymbolKind[tag]\<close> is its name.
\<close>

fun kind_number :: "KsSymbolKind \<Rightarrow> string" where
  "kind_number kind_variable = ''0''"
| "kind_number kind_function = ''1''"
| "kind_number kind_lock = ''2''"
| "kind_number kind_parameter = ''3''"
| "kind_number kind_suffix = ''4''"

fun kind_name :: "KsSymbolKind \<Rightarrow> string" where
  "kind_name kind_variable = ''variable''"
| "kind_name kind_function = ''function''"
| "kind_name kind_lock = ''lock''"
| "kind_name kind_parameter = ''parameter''"
| "kind_name kind_suffix = ''suffix''"

definition toUpperCase :: "char \<Rightarrow> char" where
  "toUpperCase c =
     (let n = (of_char c :: nat) in if 97 \<le> n \<and> n \<le> 122 then char_of (n - 32) else c)"

definition pascalCase :: "string \<Rightarrow> string" where
  "pascalCase str = (case str of [] \<Rightarrow> [] | c # cs \<Rightarrow> toUpperCase c # cs)"

definition shadowSymbolHint :: "SymbolTableBuilder \<Rightarrow> nat \<Rightarrow> KsSymbol \<Rightarrow> Diagnostic" where
  "shadowSymbolHint b nm symbol =
     (let orig = tokenHeap b (symbol_name symbol)
      in createDiagnostic (tokenHeap b nm)
           (pascalCase (kind_name (symbol_tag symbol)) @ '' '' @ lexeme orig
              @ '' already exists here. This '' @ pascalCase (kind_name (symbol_tag symbol))
              @ '' shadows it.'')
           Warning
           [(builderUri b, (start orig, tend orig), ''Orignally declared here'')])"

definition localConflictError :: "SymbolTableBuilder \<Rightarrow> nat \<Rightarrow> KsSymbol \<Rightarrow> Diagnostic" where
  "localConflictError b nm symbol =
     (let orig = tokenHeap b (symbol_name symbol)
      in createDiagnostic (tokenHeap b nm)
           (pascalCase (kind_name (symbol_tag symbol)) @ '' '' @ lexeme orig @ '' already exists.'')
           Error
           [(builderUri b, (start orig, tend orig), ''Orignally declared here'')])"

text \<open>\<open>token.tracker = tracker\<close>.\<close>

definition setTokenTracker :: "SymbolTableBuilder \<Rightarrow> nat \<Rightarrow> nat \<Rightarrow> SymbolTableBuilder" where
  "setTokenTracker b token t =
     b\<lparr>tokenHeap := (tokenHeap b)(token := (tokenHeap b token)\<lparr>tracker := Some t\<rparr>)\<rparr>"

definition checkUseSymbol ::
  "SymbolTableBuilder \<Rightarrow> nat \<Rightarrow> nat option \<Rightarrow> KsSymbolKind \<Rightarrow> nat option
     \<Rightarrow> Diagnostic option \<times> SymbolTableBuilder" where
  "checkUseSymbol b token tr symbolType expr =
     (case tr of
        None \<Rightarrow>
          (Some (createDiagnostic (tokenHeap b token)
                   (kind_number symbolType @ '' '' @ lexeme (tokenHeap b token) @ '' may not exist.'')
                   Error []),
           b)
      | Some t \<Rightarrow>
          (let b1 = setTokenTracker b token t
           in (None,
               b1\<lparr>trackers := (trackers b1)(t := (trackers b1 t)
                     \<lparr>usages := usages (trackers b1 t) @ [createEnitityChange token expr]\<rparr>)\<rparr>)))"

definition useSymbol ::
  "SymbolTableBuilder \<Rightarrow> nat \<Rightarrow> nat option \<Rightarrow> js_error + Diagnostic option \<times> SymbolTableBuilder" where
  "useSymbol b nm expr =
     (case lookup b nm ScopeType_global of
        Inl e \<Rightarrow> Inl e
      | Inr None \<Rightarrow>
          Inr (Some (createDiagnostic (tokenHeap b nm)
                       (''Symbol '' @ lexeme (tokenHeap b nm) @ '' may not exist'') Error []),
               b)
      | Inr (Some t) \<Rightarrow>
          Inr (checkUseSymbol b nm (Some t) (symbol_tag (declared (trackers b t))) expr))"

definition useVariable ::
  "SymbolTableBuilder \<Rightarrow> nat \<Rightarrow> nat option \<Rightarrow> js_error + Diagnostic option \<times> SymbolTableBuilder" where
  "useVariable b nm expr =
     (case lookupVariableTracker b nm ScopeType_global of
        Inl e \<Rightarrow> Inl e
      | Inr variable \<Rightarrow> Inr (checkUseSymbol b nm variable kind_variable expr))"

definition useFunction ::
  "SymbolTableBuilder \<Rightarrow> nat \<Rightarrow> nat option \<Rightarrow> js_error + Diagnostic option \<times> SymbolTableBuilder" where
  "useFunction b nm expr =
     (case lookupFunctionTracker b nm ScopeType_global of
        Inl e \<Rightarrow> Inl e
      | Inr func \<Rightarrow> Inr (checkUseSymbol b nm func kind_function expr))"

definition useLock ::
  "SymbolTableBuilder \<Rightarrow> nat \<Rightarrow> nat option \<Rightarrow> js_error + Diagnostic option \<times> SymbolTableBuilder" where
  "useLock b nm expr =
     (case lookupLockTracker b nm ScopeType_global of
        Inl e \<Rightarrow> Inl e
      | Inr lock \<Rightarrow> Inr (checkUseSymbol b nm lock kind_lock expr))"

definition useParameter ::
  "SymbolTableBuilder \<Rightarrow> nat \<Rightarrow> nat option \<Rightarrow> js_error + Diagnostic option \<times> SymbolTableBuilder" where
  "useParameter b nm expr =
     (case lookupParameterTracker b nm ScopeType_global of
        Inl e \<Rightarrow> Inl e
      | Inr parameter \<Rightarrow> Inr (checkUseSymbol b nm parameter kind_parameter expr))"

definition setVariable ::
  "SymbolTableBuilder \<Rightarrow> nat \<Rightarrow> js_error + Diagnostic option \<times> SymbolTableBuilder" where
  "setVariable b token =
     (case lookup b token ScopeType_global of
        Inl e \<Rightarrow> Inl e
      | Inr None \<Rightarrow>
          Inr (Some (createDiagnostic (tokenHeap b token)
                       (lexeme (tokenHeap b token) @ '' may not exist'') Error []),
               b)
      | Inr (Some t) \<Rightarrow> Inr (None, setTokenTracker b token t))"

text \<open>
  \<open>selectScope\<close> gives the scope object a declaration goes to: the global scope
  (the scope of the root node) or the innermost active one. The object is named by the
  path of its node; \<open>scopeSet\<close> is \<open>scope.set(name, tracker)\<close> on it.
\<close>

definition selectScope :: "SymbolTableBuilder \<Rightarrow> ScopeType \<Rightarrow> js_error + nat list" where
  "selectScope b ty =
     (case ty of
        ScopeType_global \<Rightarrow> Inr []
      | ScopeType_local \<Rightarrow> map_sum id (\<lambda>_. activeScopePath b) (peekScope b))"

definition scopeSet :: "SymbolTableBuilder \<Rightarrow> nat list \<Rightarrow> string \<Rightarrow> nat \<Rightarrow> SymbolTableBuilder" where
  "scopeSet b path nm t =
     b\<lparr>rootScope := updateAt (rootScope b) path
          (\<lambda>n. ScopeNode (position n) (AList.update nm t (scope n)) (children n))\<rparr>"

text \<open>\<open>new KsSymbolTracker(symbol, type)\<close>: a new object in the tracker heap.\<close>

definition allocTracker ::
  "SymbolTableBuilder \<Rightarrow> KsSymbol \<Rightarrow> nat option \<Rightarrow> nat \<times> SymbolTableBuilder" where
  "allocTracker b symbol ty =
     (nextTracker b,
      b\<lparr>trackers := (trackers b)(nextTracker b := newKsSymbolTracker symbol ty),
        nextTracker := Suc (nextTracker b)\<rparr>)"

text \<open>
  The shadowing check shared, statement for statement, by the four declarations:
  nothing for a global declaration, a hint when a local one hides a visible symbol.
\<close>

definition shadowCheck ::
  "SymbolTableBuilder \<Rightarrow> ScopeType \<Rightarrow> nat \<Rightarrow> js_error + Diagnostic option" where
  "shadowCheck b scopeType token =
     (if scopeType = ScopeType_global then Inr None
      else (case lookup b token ScopeType_global of
              Inl e \<Rightarrow> Inl e
            | Inr None \<Rightarrow> Inr None
            | Inr (Some shadowTracker) \<Rightarrow>
                Inr (Some (shadowSymbolHint b token (declared (trackers b shadowTracker))))))"

definition declareVariable ::
  "SymbolTableBuilder \<Rightarrow> ScopeType \<Rightarrow> nat \<Rightarrow> nat option
     \<Rightarrow> js_error + Diagnostic option \<times> SymbolTableBuilder" where
  "declareVariable b scopeType token ty =
     (case lookup b token scopeType of
        Inl e \<Rightarrow> Inl e
      | Inr (Some conflictTracker) \<Rightarrow>
          Inr (Some (localConflictError b token (declared (trackers b conflictTracker))), b)
      | Inr None \<Rightarrow>
          (case shadowCheck b scopeType token of
             Inl e \<Rightarrow> Inl e
           | Inr diagnostic \<Rightarrow>
               (case selectScope b scopeType of
                  Inl e \<Rightarrow> Inl e
                | Inr sc \<Rightarrow>
                    (let (t, b1) = allocTracker b (KsVariable scopeType token) ty;
                         b2 = setTokenTracker b1 token t
                     in Inr (diagnostic, scopeSet b2 sc (lexeme (tokenHeap b token)) t)))))"

definition declareFunction ::
  "SymbolTableBuilder \<Rightarrow> ScopeType \<Rightarrow> nat \<Rightarrow> KsSymbol list \<Rightarrow> bool \<Rightarrow> nat option
     \<Rightarrow> js_error + Diagnostic option \<times> SymbolTableBuilder" where
  "declareFunction b scopeType token parameters returnValue ty =
     (case lookup b token scopeType of
        Inl e \<Rightarrow> Inl e
      | Inr (Some conflictTracker) \<Rightarrow>
          Inr (Some (localConflictError b token (declared (trackers b conflictTracker))), b)
      | Inr None \<Rightarrow>
          (case shadowCheck b scopeType token of
             Inl e \<Rightarrow> Inl e
           | Inr diagnostic \<Rightarrow>
               (case selectScope b scopeType of
                  Inl e \<Rightarrow> Inl e
                | Inr sc \<Rightarrow>
                    (let (t, b1) = allocTracker b
                                     (KsFunction scopeType token parameters returnValue) ty;
                         b2 = setTokenTracker b1 token t
                     in Inr (diagnostic, scopeSet b2 sc (lexeme (tokenHeap b token)) t)))))"

definition declareLock ::
  "SymbolTableBuilder \<Rightarrow> ScopeType \<Rightarrow> nat \<Rightarrow> nat option
     \<Rightarrow> js_error + Diagnostic option \<times> SymbolTableBuilder" where
  "declareLock b scopeType token ty =
     (case lookup b token scopeType of
        Inl e \<Rightarrow> Inl e
      | Inr (Some conflictTracker) \<Rightarrow>
          Inr (Some (localConflictError b token (declared (trackers b conflictTracker))), b)
      | Inr None \<Rightarrow>
          (case shadowCheck b scopeType token of
             Inl e \<Rightarrow> Inl e
           | Inr diagnostic \<Rightarrow>
               (case selectScope b scopeType of
                  Inl e \<Rightarrow> Inl e
                | Inr sc \<Rightarrow>
                    (let (t, b1) = allocTracker b (KsLock scopeType token) ty;
                         b2 = setTokenTracker b1 token t
                     in Inr (diagnostic, scopeSet b2 sc (lexeme (tokenHeap b token)) t)))))"

definition declareParameter ::
  "SymbolTableBuilder \<Rightarrow> ScopeType \<Rightarrow> nat \<Rightarrow> bool
     \<Rightarrow> js_error + Diagnostic option \<times> SymbolTableBuilder" where
  "declareParameter b scopeType token defaulted =
     (case lookup b token scopeType of
        Inl e \<Rightarrow> Inl e
      | Inr (Some conflictTracker) \<Rightarrow>
          Inr (Some (localConflictError b token (declared (trackers b conflictTracker))), b)
      | Inr None \<Rightarrow>
          (case shadowCheck b scopeType token of
             Inl e \<Rightarrow> Inl e
           | Inr diagnostic \<Rightarrow>
               (case selectScope b scopeType of
                  Inl e \<Rightarrow> Inl e
                | Inr sc \<Rightarrow>
                    (let (t, b1) = allocTracker b
                                     (KsParameter token defaulted SymbolState_declared) None;
                         b2 = setTokenTracker b1 token t
                     in Inr (diagnostic, scopeSet b2 sc (lexeme (tokenHeap b token)) t)))))"

section \<open>Properties of the symbol table builder\<close>

lemma nodeAt_updateAt:
  "nodeAt root path = Some n \<Longrightarrow> nodeAt (updateAt root path f) path = Some (f n)"
proof (induction path arbitrary: root)
  case Nil
  then show ?case by simp
next
  case (Cons i path)
  then show ?case by (auto split: if_splits)
qed

lemma severity_localConflictError: "severity (localConflictError b nm symbol) = Error"
  by (simp add: localConflictError_def createDiagnostic_def Let_def)

lemma severity_shadowSymbolHint: "severity (shadowSymbolHint b nm symbol) = Warning"
  by (simp add: shadowSymbolHint_def createDiagnostic_def Let_def)

lemma shadowCheck_Some:
  "shadowCheck b sc tok = Inr (Some d) \<Longrightarrow> severity d = Warning \<and> sc = ScopeType_local"
  by (cases sc)
     (auto simp: shadowCheck_def severity_shadowSymbolHint split: if_splits sum.splits option.splits)

subsection \<open>Declarations\<close>

text \<open>
  What a declaration that takes effect leaves behind: the token's slot holds the new
  tracker, the new tracker is in the heap, and the selected scope maps the name to it.
\<close>

definition declareEffect ::
  "SymbolTableBuilder \<Rightarrow> ScopeType \<Rightarrow> nat \<Rightarrow> KsSymbol \<Rightarrow> nat option \<Rightarrow> SymbolTableBuilder \<Rightarrow> bool" where
  "declareEffect b sc tok symbol ty b' =
     (tracker (tokenHeap b' tok) = Some (nextTracker b) \<and>
      trackers b' (nextTracker b) = newKsSymbolTracker symbol ty \<and>
      (case selectScope b sc of
         Inl e \<Rightarrow> False
       | Inr path \<Rightarrow>
           (case nodeAt (rootScope b') path of
              None \<Rightarrow> False
            | Some node \<Rightarrow> map_of (scope node) (lexeme (tokenHeap b tok)) = Some (nextTracker b))))"

lemma declare_core:
  assumes "selectScope b sc = Inr path"
  shows "declareEffect b sc tok symbol ty
           (scopeSet (setTokenTracker (snd (allocTracker b symbol ty)) tok (nextTracker b)) path
              (lexeme (tokenHeap b tok)) (nextTracker b))"
proof -
  from assms obtain n where n: "nodeAt (rootScope b) path = Some n"
    by (cases sc) (auto simp: selectScope_def peekScope_def activeScopeNode_def
        split: option.splits sum.splits)
  show ?thesis
    using assms n
    by (simp add: declareEffect_def scopeSet_def setTokenTracker_def allocTracker_def
        nodeAt_updateAt update_conv')
qed

lemma declareVariable_outcome:
  assumes "declareVariable b sc tok ty = Inr (Some d, b')"
  shows "(severity d = Error \<longrightarrow> b' = b) \<and>
         (severity d = Warning \<longrightarrow> declareEffect b sc tok (KsVariable sc tok) ty b')"
proof (cases "lookup b tok sc")
  case (Inl e)
  with assms show ?thesis by (simp add: declareVariable_def)
next
  case (Inr r)
  show ?thesis
  proof (cases r)
    case (Some c)
    with Inr assms show ?thesis
      by (auto simp: declareVariable_def severity_localConflictError)
  next
    case None
    with Inr assms obtain path where
      sh: "shadowCheck b sc tok = Inr (Some d)" and sel: "selectScope b sc = Inr path"
      and b': "b' = scopeSet (setTokenTracker (snd (allocTracker b (KsVariable sc tok) ty))
                      tok (nextTracker b)) path (lexeme (tokenHeap b tok)) (nextTracker b)"
      by (auto simp: declareVariable_def allocTracker_def split: sum.splits)
    from sh have "severity d = Warning" by (simp add: shadowCheck_Some)
    with declare_core [OF sel] b' show ?thesis by simp
  qed
qed

lemma declareFunction_outcome:
  assumes "declareFunction b sc tok ps rv ty = Inr (Some d, b')"
  shows "(severity d = Error \<longrightarrow> b' = b) \<and>
         (severity d = Warning \<longrightarrow> declareEffect b sc tok (KsFunction sc tok ps rv) ty b')"
proof (cases "lookup b tok sc")
  case (Inl e)
  with assms show ?thesis by (simp add: declareFunction_def)
next
  case (Inr r)
  show ?thesis
  proof (cases r)
    case (Some c)
    with Inr assms show ?thesis
      by (auto simp: declareFunction_def severity_localConflictError)
  next
    case None
    with Inr assms obtain path where
      sh: "shadowCheck b sc tok = Inr (Some d)" and sel: "selectScope b sc = Inr path"
      and b': "b' = scopeSet (setTokenTracker (snd (allocTracker b (KsFunction sc tok ps rv) ty))
                      tok (nextTracker b)) path (lexeme (tokenHeap b tok)) (nextTracker b)"
      by (auto simp: declareFunction_def allocTracker_def split: sum.splits)
    from sh have "severity d = Warning" by (simp add: shadowCheck_Some)
    with declare_core [OF sel] b' show ?thesis by simp
  qed
qed

lemma declareLock_outcome:
  assumes "declareLock b sc tok ty = Inr (Some d, b')"
  shows "(severity d = Error \<longrightarrow> b' = b) \<and>
         (severity d = Warning \<longrightarrow> declareEffect b sc tok (KsLock sc tok) ty b')"
proof (cases "lookup b tok sc")
  case (Inl e)
  with assms show ?thesis by (simp add: declareLock_def)
next
  case (Inr r)
  show ?thesis
  proof (cases r)
    case (Some c)
    with Inr assms show ?thesis
      by (auto simp: declareLock_def severity_localConflictError)
  next
    case None
    with Inr assms obtain path where
      sh: "shadowCheck b sc tok = Inr (Some d)" and sel: "selectScope b sc = Inr path"
      and b': "b' = scopeSet (setTokenTracker (snd (allocTracker b (KsLock sc tok) ty))
                      tok (nextTracker b)) path (lexeme (tokenHeap b tok)) (nextTracker b)"
      by (auto simp: declareLock_def allocTracker_def split: sum.splits)
    from sh have "severity d = Warning" by (simp add: shadowCheck_Some)
    with declare_core [OF sel] b' show ?thesis by simp
  qed
qed

lemma declareParameter_outcome:
  assumes "declareParameter b sc tok dflt = Inr (Some d, b')"
  shows "(severity d = Error \<longrightarrow> b' = b) \<and>
         (severity d = Warning \<longrightarrow>
            declareEffect b sc tok (KsParameter tok dflt SymbolState_declared) None b')"
proof (cases "lookup b tok sc")
  case (Inl e)
  with assms show ?thesis by (simp add: declareParameter_def)
next
  case (Inr r)
  show ?thesis
  proof (cases r)
    case (Some c)
    with Inr assms show ?thesis
      by (auto simp: declareParameter_def severity_localConflictError)
  next
    case None
    with Inr assms obtain path where
      sh: "shadowCheck b sc tok = Inr (Some d)" and sel: "selectScope b sc = Inr path"
      and b': "b' = scopeSet (setTokenTracker
                      (snd (allocTracker b (KsParameter tok dflt SymbolState_declared) None))
                      tok (nextTracker b)) path (lexeme (tokenHeap b tok)) (nextTracker b)"
      by (auto simp: declareParameter_def allocTracker_def split: sum.splits)
    from sh have "severity d = Warning" by (simp add: shadowCheck_Some)
    with declare_core [OF sel] b' show ?thesis by simp
  qed
qed

text \<open>
  C9. For each of the four declarations: when the diagnostic returned is the
  redeclaration conflict (the one of severity \<open>Error\<close>), the builder is returned
  as it was, so the name keeps its tracker and the token's slot is not written; when it
  is the shadowing hint (severity \<open>Warning\<close>), the declaration has taken effect:
  the new tracker is in the selected scope under the name and in the token's slot.
\<close>

theorem declare_conflict_unchanged_shadow_effective:
  "(\<forall>d b'. declareVariable b sc tok ty = Inr (Some d, b') \<longrightarrow>
      (severity d = Error \<longrightarrow> b' = b) \<and>
      (severity d = Warning \<longrightarrow> declareEffect b sc tok (KsVariable sc tok) ty b')) \<and>
   (\<forall>d b'. declareFunction b sc tok ps rv ty = Inr (Some d, b') \<longrightarrow>
      (severity d = Error \<longrightarrow> b' = b) \<and>
      (severity d = Warning \<longrightarrow> declareEffect b sc tok (KsFunction sc tok ps rv) ty b')) \<and>
   (\<forall>d b'. declareLock b sc tok ty = Inr (Some d, b') \<longrightarrow>
      (severity d = Error \<longrightarrow> b' = b) \<and>
      (severity d = Warning \<longrightarrow> declareEffect b sc tok (KsLock sc tok) ty b')) \<and>
   (\<forall>d b'. declareParameter b sc tok dflt = Inr (Some d, b') \<longrightarrow>
      (severity d = Error \<longrightarrow> b' = b) \<and>
      (severity d = Warning \<longrightarrow>
         declareEffect b sc tok (KsParameter tok dflt SymbolState_declared) None b'))"
  by (intro conjI allI impI;
      drule declareVariable_outcome declareFunction_outcome declareLock_outcome
        declareParameter_outcome;
      simp)

subsection \<open>A small program\<close>

text \<open>
  Tokens \<open>0\<close>, \<open>3\<close>, \<open>4\<close> are occurrences of \<open>x\<close>; tokens \<open>1\<close> and
  \<open>2\<close> are occurrences of \<open>hi\<close>.
\<close>

definition mkToken :: "string \<Rightarrow> nat \<Rightarrow> IToken" where
  "mkToken s l =
     \<lparr>tokenType = tt_identifier, lexeme = s, start = \<lparr>line = l, character = 0\<rparr>,
      tend = \<lparr>line = l, character = length s\<rparr>, uri = ''a.ks'', tracker = None\<rparr>"

definition example_tokens :: "nat \<Rightarrow> IToken" where
  "example_tokens = (\<lambda>i. mkToken ''x'' i)(1 := mkToken ''hi'' 1, 2 := mkToken ''hi'' 2)"

definition example_range :: "Marker \<times> Marker" where
  "example_range = (\<lparr>line = 0, character = 0\<rparr>, \<lparr>line = 9, character = 0\<rparr>)"

definition builder0 :: SymbolTableBuilder where
  "builder0 =
     newSymbolTableBuilder ''a.ks''
       (\<lambda>_. newKsSymbolTracker (KsVariable ScopeType_global 0) None) 0 example_tokens"

text \<open>\<open>global x\<close> declared, then a block entered.\<close>

definition builder_global_x :: SymbolTableBuilder where
  "builder_global_x =
     projr (beginScope (snd (projr (declareVariable builder0 ScopeType_global 0 None)))
              example_range)"

text \<open>... and \<open>local x\<close> declared in the block.\<close>

definition builder_local_x :: SymbolTableBuilder where
  "builder_local_x = snd (projr (declareVariable builder_global_x ScopeType_local 3 None))"

lemmas example_defs =
  builder0_def builder_global_x_def builder_local_x_def example_tokens_def example_range_def
  mkToken_def newSymbolTableBuilder_def declareVariable_def declareFunction_def lookup_def
  peekScope_def activeScopeNode_def activeScopeStack_def shadowCheck_def selectScope_def
  allocTracker_def setTokenTracker_def scopeSet_def beginScope_def localConflictError_def
  shadowSymbolHint_def createDiagnostic_def newKsSymbolTracker_def Let_def

lemma local_x_shadows:
  "\<exists>d b'. declareVariable builder_global_x ScopeType_local 3 None = Inr (Some d, b')
       \<and> severity d = Warning"
  by (simp add: example_defs)

lemma local_x_conflicts:
  "\<exists>d b'. declareVariable builder_local_x ScopeType_local 4 None = Inr (Some d, b')
       \<and> severity d = Error"
  by (simp add: example_defs)

theorem declare_conflict_unchanged_shadow_effective_witness:
  "(\<exists>d b'. declareVariable builder_global_x ScopeType_local 3 None = Inr (Some d, b')
       \<and> severity d = Warning
       \<and> declareEffect builder_global_x ScopeType_local 3 (KsVariable ScopeType_local 3) None b') \<and>
   (\<exists>d. declareVariable builder_local_x ScopeType_local 4 None = Inr (Some d, builder_local_x)
       \<and> severity d = Error)"
proof
  from local_x_shadows obtain d b' where
    r: "declareVariable builder_global_x ScopeType_local 3 None = Inr (Some d, b')"
    and s: "severity d = Warning" by blast
  from declare_conflict_unchanged_shadow_effective
         [of builder_global_x ScopeType_local 3 None] r s
  have "declareEffect builder_global_x ScopeType_local 3 (KsVariable ScopeType_local 3) None b'"
    by blast
  with r s show "\<exists>d b'. declareVariable builder_global_x ScopeType_local 3 None = Inr (Some d, b')
       \<and> severity d = Warning
       \<and> declareEffect builder_global_x ScopeType_local 3 (KsVariable ScopeType_local 3) None b'"
    by blast
next
  from local_x_conflicts obtain d b' where
    r: "declareVariable builder_local_x ScopeType_local 4 None = Inr (Some d, b')"
    and s: "severity d = Error" by blast
  from declare_conflict_unchanged_shadow_effective
         [of builder_local_x ScopeType_local 4 None] r s
  have "b' = builder_local_x" by blast
  with r s show "\<exists>d. declareVariable builder_local_x ScopeType_local 4 None
                        = Inr (Some d, builder_local_x) \<and> severity d = Error"
    by blast
qed

subsection \<open>Closing a scope\<close>

text \<open>The trackers \<open>endScope\<close> reports: no usage, and a parameter, a variable or a
  lock that is not cooked.\<close>

definition unusedReported :: "(KsSymbol \<Rightarrow> bool) \<Rightarrow> SymbolTableBuilder \<Rightarrow> nat \<Rightarrow> bool" where
  "unusedReported cooked b t =
     (usages (trackers b t) = [] \<and>
      (case symbol_tag (declared (trackers b t)) of
         kind_parameter \<Rightarrow> True
       | kind_variable \<Rightarrow> True
       | kind_lock \<Rightarrow> \<not> cooked (declared (trackers b t))
       | _ \<Rightarrow> False))"

lemma scopeError_result:
  "\<exists>errs. scopeError cooked b t = Inr errs \<and> (\<forall>d \<in> set errs. severity d = Error)
      \<and> length errs = (if unusedReported cooked b t then 1 else 0)"
  by (cases "declared (trackers b t)")
     (simp_all add: scopeError_def unusedReported_def createDiagnostic_def Let_def)

lemma scopeErrors_result:
  "\<exists>errs. scopeErrors cooked b ts = Inr errs \<and> (\<forall>d \<in> set errs. severity d = Error)
      \<and> length errs = length (filter (unusedReported cooked b) ts)"
proof (induction ts)
  case Nil
  show ?case by simp
next
  case (Cons t ts)
  from scopeError_result [of cooked b t] obtain e1 where
    e1: "scopeError cooked b t = Inr e1" "\<forall>d \<in> set e1. severity d = Error"
      "length e1 = (if unusedReported cooked b t then 1 else 0)" by blast
  from Cons.IH obtain e2 where
    e2: "scopeErrors cooked b ts = Inr e2" "\<forall>d \<in> set e2. severity d = Error"
      "length e2 = length (filter (unusedReported cooked b) ts)" by blast
  from e1 e2 show ?case by auto
qed

lemma unusedReported_path:
  "unusedReported cooked (b\<lparr>activeScopePath := p\<rparr>) = unusedReported cooked b"
  by (rule ext) (simp add: unusedReported_def split: KsSymbolKind.splits)

text \<open>
  C4, as the code has it. Closing a scope whose node exists returns one diagnostic for
  each tracker of the scope that has no usage and is a parameter, a variable or a lock
  that is not cooked, and every diagnostic returned has severity \<open>Error\<close>.
\<close>

theorem endScope_unused_are_errors:
  assumes "activeScopeNode b = Inr node"
  shows "\<exists>errors. endScope cooked b
             = Inr (errors, b\<lparr>activeScopePath := butlast (activeScopePath b)\<rparr>)
           \<and> (\<forall>d \<in> set errors. severity d = Error)
           \<and> length errors = length (filter (unusedReported cooked b) (map snd (scope node)))"
  using assms
    scopeErrors_result [of cooked "b\<lparr>activeScopePath := butlast (activeScopePath b)\<rparr>"
      "map snd (scope node)"]
  by (auto simp: endScope_def Let_def unusedReported_path)

text \<open>
  The block of the small program, with \<open>local x\<close> and then \<open>lock hi\<close> declared
  in it and neither used.
\<close>

definition builder_local_x_lock_hi :: SymbolTableBuilder where
  "builder_local_x_lock_hi = snd (projr (declareLock builder_local_x ScopeType_local 1 None))"

lemma builder_local_x_lock_hi_node:
  "activeScopeNode builder_local_x_lock_hi
     = Inr (ScopeNode (RealPosition \<lparr>line = 0, character = 0\<rparr> \<lparr>line = 9, character = 0\<rparr>)
              [(''x'', 1), (''hi'', 2)] [])"
  by (simp add: builder_local_x_lock_hi_def declareLock_def example_defs)

lemma builder_local_x_lock_hi_kinds:
  "symbol_tag (declared (trackers builder_local_x_lock_hi 1)) = kind_variable \<and>
   symbol_tag (declared (trackers builder_local_x_lock_hi 2)) = kind_lock \<and>
   usages (trackers builder_local_x_lock_hi 1) = [] \<and>
   usages (trackers builder_local_x_lock_hi 2) = []"
  by (simp add: builder_local_x_lock_hi_def declareLock_def example_defs)

theorem endScope_unused_are_errors_witness:
  "\<exists>errors. endScope (\<lambda>_. False) builder_local_x_lock_hi
       = Inr (errors, builder_local_x_lock_hi
                \<lparr>activeScopePath := butlast (activeScopePath builder_local_x_lock_hi)\<rparr>)
     \<and> (\<forall>d \<in> set errors. severity d = Error) \<and> length errors = 2"
  using endScope_unused_are_errors [OF builder_local_x_lock_hi_node, of "\<lambda>_. False"]
    builder_local_x_lock_hi_kinds
  by (simp add: unusedReported_def numeral_2_eq_2)

text \<open>
  C4, as the spec has it: an unused variable or lock yields a warning, not an error.
  Closing the block above yields two diagnostics, for the variable \<open>x\<close> and for the
  lock \<open>hi\<close>, both of severity \<open>Error\<close>.
\<close>

theorem endScope_unused_variable_lock_counterexample:
  "map_sum id (\<lambda>r. map (\<lambda>d. (message d, severity d)) (fst r))
     (endScope (\<lambda>_. False) builder_local_x_lock_hi)
   = Inr [(''Variable x was not used.'', Error), (''Lock hi was not used.'', Error)]"
  by (simp add: endScope_def scopeError_def builder_local_x_lock_hi_def declareLock_def
      example_defs)

subsection \<open>Uses\<close>

lemma checkUseSymbol_Some:
  "checkUseSymbol b nm (Some t) k expr = (d, b') \<Longrightarrow>
     d = None \<and> tracker (tokenHeap b' nm) = Some t
     \<and> usages (trackers b' t) = usages (trackers b t) @ [(nm, expr)]"
  by (auto simp: checkUseSymbol_def setTokenTracker_def createEnitityChange_def Let_def)

lemma checkUseSymbol_None:
  "checkUseSymbol b nm None k expr = (d, b') \<Longrightarrow>
     b' = b \<and> (\<exists>diag. d = Some diag \<and> severity diag = Error
        \<and> message diag = kind_number k @ '' '' @ lexeme (tokenHeap b nm) @ '' may not exist.'')"
  by (auto simp: checkUseSymbol_def createDiagnostic_def)

text \<open>
  The four uses that test the kind they are named after, and \<open>useSymbol\<close>: a visible
  tracker (of that kind) is recorded on the token and gets the usage, with no
  diagnostic; a name that resolves to nothing gives the diagnostic.
\<close>

lemma use_resolved:
  assumes "lookup b nm ScopeType_global = Inr (Some t)"
  shows "\<exists>b'. useSymbol b nm expr = Inr (None, b') \<and> tracker (tokenHeap b' nm) = Some t
           \<and> usages (trackers b' t) = usages (trackers b t) @ [(nm, expr)]"
    and "symbol_tag (declared (trackers b t)) = kind_variable \<Longrightarrow>
         \<exists>b'. useVariable b nm expr = Inr (None, b') \<and> tracker (tokenHeap b' nm) = Some t
           \<and> usages (trackers b' t) = usages (trackers b t) @ [(nm, expr)]"
    and "symbol_tag (declared (trackers b t)) = kind_lock \<Longrightarrow>
         \<exists>b'. useLock b nm expr = Inr (None, b') \<and> tracker (tokenHeap b' nm) = Some t
           \<and> usages (trackers b' t) = usages (trackers b t) @ [(nm, expr)]"
    and "symbol_tag (declared (trackers b t)) = kind_parameter \<Longrightarrow>
         \<exists>b'. useParameter b nm expr = Inr (None, b') \<and> tracker (tokenHeap b' nm) = Some t
           \<and> usages (trackers b' t) = usages (trackers b t) @ [(nm, expr)]"
  using assms
  by (auto simp: useSymbol_def useVariable_def useLock_def useParameter_def
      lookupVariableTracker_def lookupLockTracker_def lookupParameterTracker_def
      isKsVariable_def isKsLock_def isKsParameter_def
      checkUseSymbol_def setTokenTracker_def createEnitityChange_def Let_def)

lemma use_unresolved:
  assumes "lookup b nm ScopeType_global = Inr None"
  shows "\<exists>d. useSymbol b nm expr = Inr (Some d, b) \<and> severity d = Error
           \<and> message d = ''Symbol '' @ lexeme (tokenHeap b nm) @ '' may not exist''"
    and "\<exists>d. useVariable b nm expr = Inr (Some d, b) \<and> severity d = Error
           \<and> message d = ''0 '' @ lexeme (tokenHeap b nm) @ '' may not exist.''"
    and "\<exists>d. useFunction b nm expr = Inr (Some d, b) \<and> severity d = Error
           \<and> message d = ''1 '' @ lexeme (tokenHeap b nm) @ '' may not exist.''"
    and "\<exists>d. useLock b nm expr = Inr (Some d, b) \<and> severity d = Error
           \<and> message d = ''2 '' @ lexeme (tokenHeap b nm) @ '' may not exist.''"
    and "\<exists>d. useParameter b nm expr = Inr (Some d, b) \<and> severity d = Error
           \<and> message d = ''3 '' @ lexeme (tokenHeap b nm) @ '' may not exist.''"
  using assms
  by (auto simp: useSymbol_def useVariable_def useFunction_def useLock_def useParameter_def
      lookupVariableTracker_def lookupFunctionTracker_def lookupLockTracker_def
      lookupParameterTracker_def checkUseSymbol_def createDiagnostic_def)

text \<open>
  \<open>useFunction\<close> goes through \<open>lookupFunctionTracker\<close>, which keeps a tracker
  only when \<open>isKsVariable\<close> holds of its symbol: a visible function is refused, and
  a visible variable is taken for one.
\<close>

lemma useFunction_function:
  assumes "lookup b nm ScopeType_global = Inr (Some t)"
    and "symbol_tag (declared (trackers b t)) = kind_function"
  shows "\<exists>d. useFunction b nm expr = Inr (Some d, b) \<and> severity d = Error
           \<and> message d = ''1 '' @ lexeme (tokenHeap b nm) @ '' may not exist.''"
  using assms
  by (auto simp: useFunction_def lookupFunctionTracker_def isKsVariable_def
      checkUseSymbol_def createDiagnostic_def)

lemma useFunction_variable:
  assumes "lookup b nm ScopeType_global = Inr (Some t)"
    and "symbol_tag (declared (trackers b t)) = kind_variable"
  shows "\<exists>b'. useFunction b nm expr = Inr (None, b') \<and> tracker (tokenHeap b' nm) = Some t"
  using assms
  by (auto simp: useFunction_def lookupFunctionTracker_def isKsVariable_def
      checkUseSymbol_def setTokenTracker_def Let_def)

text \<open>The program \<open>function hi { ... }\<close>, declared at global scope.\<close>

definition builder_function_hi :: SymbolTableBuilder where
  "builder_function_hi =
     snd (projr (declareFunction builder0 ScopeType_global 1 [] False None))"

text \<open>
  C3. A use of a name whose tracker, of the expected kind, is visible records the
  tracker and returns no diagnostic. With the function \<open>hi\<close> declared (its tracker
  is visible to the second occurrence of \<open>hi\<close>, and its symbol is a function),
  \<open>useFunction\<close> on that occurrence returns the diagnostic of an unresolved name and
  leaves the token's slot empty.
\<close>

theorem useFunction_rejects_declared_function:
  "lookup builder_function_hi 2 ScopeType_global = Inr (Some 0) \<and>
   symbol_tag (declared (trackers builder_function_hi 0)) = kind_function \<and>
   map_sum id (\<lambda>r. (map_option (\<lambda>d. (message d, severity d)) (fst r),
                     tracker (tokenHeap (snd r) 2), usages (trackers (snd r) 0)))
     (useFunction builder_function_hi 2 None)
   = Inr (Some (''1 hi may not exist.'', Error), None, [])"
  by (simp add: builder_function_hi_def example_defs useFunction_def
      lookupFunctionTracker_def isKsVariable_def checkUseSymbol_def)

section \<open>Analysis coordinator\<close>

text \<open>
  Modelled from the spec: the coordinator (services/analysisService) and the two link
  sets of a symbol table (analysis/symbolTable) are not under src; only the
  coordinator's tests are. The model follows the spec's sections 3 and 4.4. A symbol
  table is an object, named by its address; it has the set of tables it depends on and
  the set of tables that depend on it (JavaScript sets, kept in insertion order). The
  coordinator owns one table per document. The documents a document's load statements
  resolve to are the work of the parser and of the path resolver, an external
  collaborator: the function \<open>loads\<close>.
\<close>

record LinkSets =
  dependencyTables :: "nat list"
  dependentTables :: "nat list"

record Coordinator =
  documentInfos :: "string \<rightharpoonup> nat"
  linkSets :: "nat \<Rightarrow> LinkSets"
  nextTable :: nat

definition newCoordinator :: Coordinator where
  "newCoordinator =
     \<lparr>documentInfos = Map.empty,
      linkSets = (\<lambda>_. \<lparr>dependencyTables = [], dependentTables = []\<rparr>),
      nextTable = 0\<rparr>"

text \<open>Modelled from the spec: linking \<open>a\<close> to \<open>b\<close> as dependent and dependency.\<close>

definition linkTables :: "nat \<Rightarrow> nat \<Rightarrow> Coordinator \<Rightarrow> Coordinator" where
  "linkTables a b c =
     (let s1 = (linkSets c)(a := (linkSets c a)
                 \<lparr>dependencyTables := List.insert b (dependencyTables (linkSets c a))\<rparr>);
          s2 = s1(b := (s1 b)\<lparr>dependentTables := List.insert a (dependentTables (s1 b))\<rparr>)
      in c\<lparr>linkSets := s2\<rparr>)"

text \<open>
  Modelled from the spec: detaching a table from its previous dependents and
  dependencies. Its own sets are emptied and it leaves the sets of every other table.
\<close>

definition detachTable :: "nat \<Rightarrow> Coordinator \<Rightarrow> Coordinator" where
  "detachTable old c =
     c\<lparr>linkSets := (\<lambda>x. if x = old then \<lparr>dependencyTables = [], dependentTables = []\<rparr>
                         else \<lparr>dependencyTables = removeAll old (dependencyTables (linkSets c x)),
                               dependentTables = removeAll old (dependentTables (linkSets c x))\<rparr>)\<rparr>"

text \<open>
  Modelled from the spec: linking to the table of a document that is loaded; a document
  that is not cached is analysed first (\<open>analyse\<close>), and one that cannot be analysed is
  left out.
\<close>

definition loadDependency ::
  "(string \<Rightarrow> Coordinator \<Rightarrow> Coordinator) \<Rightarrow> nat \<Rightarrow> string \<Rightarrow> Coordinator \<Rightarrow> Coordinator" where
  "loadDependency analyse t u c =
     (case documentInfos c u of
        Some d \<Rightarrow> linkTables t d c
      | None \<Rightarrow>
          (let c' = analyse u c
           in case documentInfos c' u of
                Some d \<Rightarrow> linkTables t d c'
              | None \<Rightarrow> c'))"

text \<open>
  Modelled from the spec: building the table of a document anew. The table is a new
  object; the previous table of the document is detached, and the tables that depended
  on it depend on the new one (the test \<open>validate multiple with updates documents\<close>
  finds one dependent on the table of a document that was validated again).
\<close>

definition rebuildTable :: "string \<Rightarrow> Coordinator \<Rightarrow> Coordinator" where
  "rebuildTable u c =
     (let t = nextTable c;
          c1 = c\<lparr>documentInfos := (documentInfos c)(u \<mapsto> t), nextTable := Suc t\<rparr>
      in case documentInfos c u of
           None \<Rightarrow> c1
         | Some old \<Rightarrow>
             fold (\<lambda>p. linkTables p t) (removeAll old (dependentTables (linkSets c old)))
               (detachTable old c1))"

text \<open>
  Modelled from the spec: a validation builds the table anew, then links the fresh
  dependency edges, one for each document the load statements resolve to.
\<close>

definition revalidate ::
  "(string \<Rightarrow> Coordinator \<Rightarrow> Coordinator) \<Rightarrow> (string \<Rightarrow> string list) \<Rightarrow> string
     \<Rightarrow> Coordinator \<Rightarrow> Coordinator" where
  "revalidate analyse loads u c =
     fold (loadDependency analyse (nextTable c)) (loads u) (rebuildTable u c)"

text \<open>
  Modelled from the spec: \<open>validateDocument\<close>. The number bounds how deep the
  analysis of documents that are not cached may nest; at depth \<open>0\<close> such a document is
  not loaded. A document is registered before its dependencies are loaded, so a cycle of
  loads ends.
\<close>

primrec validateDocument ::
  "nat \<Rightarrow> (string \<Rightarrow> string list) \<Rightarrow> string \<Rightarrow> Coordinator \<Rightarrow> Coordinator" where
  "validateDocument 0 loads = revalidate (\<lambda>u c. c) loads"
| "validateDocument (Suc n) loads = revalidate (validateDocument n loads) loads"

subsection \<open>Consistency of the links\<close>

definition linksConsistent :: "Coordinator \<Rightarrow> bool" where
  "linksConsistent c =
     (\<forall>a b. b \<in> set (dependencyTables (linkSets c a))
              \<longleftrightarrow> a \<in> set (dependentTables (linkSets c b)))"

text \<open>A table without an edge: its sets are empty and no table's set holds it.\<close>

definition noEdges :: "nat \<Rightarrow> Coordinator \<Rightarrow> bool" where
  "noEdges t c =
     (dependencyTables (linkSets c t) = [] \<and> dependentTables (linkSets c t) = [] \<and>
      (\<forall>x. t \<notin> set (dependencyTables (linkSets c x)) \<and> t \<notin> set (dependentTables (linkSets c x))))"

text \<open>
  The coordinator's invariant: the links are consistent, the tables of the documents
  are allocated and pairwise different, and a table not yet allocated has no edge.
\<close>

definition coordinatorInv :: "Coordinator \<Rightarrow> bool" where
  "coordinatorInv c =
     (linksConsistent c \<and>
      (\<forall>u t. documentInfos c u = Some t \<longrightarrow> t < nextTable c) \<and>
      (\<forall>u v t. documentInfos c u = Some t \<and> documentInfos c v = Some t \<longrightarrow> u = v) \<and>
      (\<forall>t. nextTable c \<le> t \<longrightarrow> noEdges t c))"

text \<open>A table that is out of use: allocated, of no document, and without an edge.\<close>

definition retired :: "nat \<Rightarrow> Coordinator \<Rightarrow> bool" where
  "retired t c = (t < nextTable c \<and> (\<forall>u. documentInfos c u \<noteq> Some t) \<and> noEdges t c)"

lemma linkTables_fields [simp]:
  "documentInfos (linkTables a b c) = documentInfos c"
  "nextTable (linkTables a b c) = nextTable c"
  by (simp_all add: linkTables_def Let_def)

lemma linkTables_dependency:
  "set (dependencyTables (linkSets (linkTables a b c) x))
     = (if x = a then insert b (set (dependencyTables (linkSets c x)))
        else set (dependencyTables (linkSets c x)))"
  by (simp add: linkTables_def Let_def)

lemma linkTables_dependent:
  "set (dependentTables (linkSets (linkTables a b c) x))
     = (if x = b then insert a (set (dependentTables (linkSets c x)))
        else set (dependentTables (linkSets c x)))"
  by (simp add: linkTables_def Let_def)

lemma linksConsistent_linkTables:
  "linksConsistent c \<Longrightarrow> linksConsistent (linkTables a b c)"
  unfolding linksConsistent_def linkTables_dependency linkTables_dependent
  by auto

lemma noEdges_set:
  "noEdges t c \<longleftrightarrow>
     set (dependencyTables (linkSets c t)) = {} \<and> set (dependentTables (linkSets c t)) = {} \<and>
     (\<forall>x. t \<notin> set (dependencyTables (linkSets c x)) \<and> t \<notin> set (dependentTables (linkSets c x)))"
  by (simp add: noEdges_def)

lemma noEdges_linkTables:
  "noEdges t c \<Longrightarrow> t \<noteq> a \<Longrightarrow> t \<noteq> b \<Longrightarrow> noEdges t (linkTables a b c)"
  unfolding noEdges_set linkTables_dependency linkTables_dependent
  by auto

lemma coordinatorInv_linkTables:
  assumes "coordinatorInv c" "a < nextTable c" "b < nextTable c"
  shows "coordinatorInv (linkTables a b c)"
  using assms
  by (auto simp: coordinatorInv_def linksConsistent_linkTables intro!: noEdges_linkTables)

lemma retired_linkTables:
  "retired t c \<Longrightarrow> t \<noteq> a \<Longrightarrow> t \<noteq> b \<Longrightarrow> retired t (linkTables a b c)"
  by (simp add: retired_def noEdges_linkTables)

lemma linksConsistent_detachTable:
  "linksConsistent c \<Longrightarrow> linksConsistent (detachTable old c)"
  by (auto simp: linksConsistent_def detachTable_def)

lemma noEdges_detachTable_self: "noEdges old (detachTable old c)"
  by (simp add: noEdges_def detachTable_def)

lemma noEdges_detachTable: "noEdges t c \<Longrightarrow> noEdges t (detachTable old c)"
  by (auto simp: noEdges_def detachTable_def)

lemma detachTable_fields [simp]:
  "documentInfos (detachTable old c) = documentInfos c"
  "nextTable (detachTable old c) = nextTable c"
  by (simp_all add: detachTable_def)

lemma fold_linkTables:
  assumes "coordinatorInv c" "\<forall>p \<in> set ps. p < nextTable c" "t < nextTable c"
  shows "coordinatorInv (fold (\<lambda>p. linkTables p t) ps c)
       \<and> nextTable (fold (\<lambda>p. linkTables p t) ps c) = nextTable c
       \<and> documentInfos (fold (\<lambda>p. linkTables p t) ps c) = documentInfos c
       \<and> (\<forall>z. retired z c \<longrightarrow> z \<notin> set ps \<longrightarrow> z \<noteq> t
              \<longrightarrow> retired z (fold (\<lambda>p. linkTables p t) ps c))"
  using assms
proof (induction ps arbitrary: c)
  case Nil
  then show ?case by simp
next
  case (Cons p ps)
  have inv1: "coordinatorInv (linkTables p t c)"
    using Cons.prems by (simp add: coordinatorInv_linkTables)
  have "\<forall>q \<in> set ps. q < nextTable (linkTables p t c)" "t < nextTable (linkTables p t c)"
    using Cons.prems by simp_all
  from Cons.IH [OF inv1 this] show ?case
    by (auto simp: retired_linkTables)
qed

lemma dependents_allocated:
  assumes "coordinatorInv c" "p \<in> set (dependentTables (linkSets c old))"
  shows "p < nextTable c"
proof (rule ccontr)
  assume "\<not> p < nextTable c"
  with assms(1) have "noEdges p c" by (simp add: coordinatorInv_def)
  then have "old \<notin> set (dependencyTables (linkSets c p))" by (simp add: noEdges_def)
  with assms show False by (simp add: coordinatorInv_def linksConsistent_def)
qed

lemma retired_not_dependent:
  assumes "coordinatorInv c" "retired z c"
  shows "z \<notin> set (dependentTables (linkSets c old))"
proof
  assume "z \<in> set (dependentTables (linkSets c old))"
  with assms(1) have "old \<in> set (dependencyTables (linkSets c z))"
    by (simp add: coordinatorInv_def linksConsistent_def)
  with assms(2) show False by (simp add: retired_def noEdges_def)
qed

lemma rebuildTable_props:
  assumes "coordinatorInv c"
  shows "coordinatorInv (rebuildTable u c)
       \<and> nextTable (rebuildTable u c) = Suc (nextTable c)
       \<and> documentInfos (rebuildTable u c) = (documentInfos c)(u \<mapsto> nextTable c)
       \<and> (\<forall>z. retired z c \<longrightarrow> retired z (rebuildTable u c))
       \<and> (\<forall>old. documentInfos c u = Some old \<longrightarrow> retired old (rebuildTable u c))"
proof -
  define t where "t = nextTable c"
  define c1 where "c1 = c\<lparr>documentInfos := (documentInfos c)(u \<mapsto> t), nextTable := Suc t\<rparr>"
  have ls1: "linkSets c1 = linkSets c" by (simp add: c1_def)
  have ne1: "\<And>x. noEdges x c1 = noEdges x c" by (simp add: noEdges_def ls1)
  have alloc: "\<And>v x. documentInfos c v = Some x \<Longrightarrow> x < t"
    using assms by (auto simp: coordinatorInv_def t_def)
  have inv1: "coordinatorInv c1"
    unfolding coordinatorInv_def
  proof (intro conjI allI impI)
    show "linksConsistent c1"
      using assms by (simp add: coordinatorInv_def linksConsistent_def ls1)
  next
    fix v x assume "documentInfos c1 v = Some x"
    then show "x < nextTable c1"
      using alloc [of v x] by (auto simp: c1_def split: if_splits)
  next
    fix v w x assume "documentInfos c1 v = Some x \<and> documentInfos c1 w = Some x"
    then show "v = w"
      using alloc [of v x] alloc [of w x] assms
      by (auto simp: c1_def coordinatorInv_def split: if_splits)
  next
    fix x assume "nextTable c1 \<le> x"
    then have "nextTable c \<le> x" by (simp add: c1_def t_def)
    with assms show "noEdges x c1" by (simp add: ne1 coordinatorInv_def)
  qed
  have ret1: "\<And>z. retired z c \<Longrightarrow> retired z c1"
    by (auto simp: retired_def ne1) (auto simp: c1_def t_def split: if_splits)
  show ?thesis
  proof (cases "documentInfos c u")
    case None
    then have "rebuildTable u c = c1" by (simp add: rebuildTable_def c1_def t_def Let_def)
    with inv1 ret1 None show ?thesis by (simp add: c1_def t_def)
  next
    case (Some old)
    define ps where "ps = removeAll old (dependentTables (linkSets c old))"
    define c2 where "c2 = detachTable old c1"
    have rb: "rebuildTable u c = fold (\<lambda>p. linkTables p t) ps c2"
      using Some by (simp add: rebuildTable_def c1_def c2_def ps_def t_def Let_def)
    have old_lt: "old < t" using Some alloc by blast
    have inv2: "coordinatorInv c2"
      using inv1
      by (auto simp: coordinatorInv_def c2_def linksConsistent_detachTable
          intro: noEdges_detachTable)
    have ps_lt: "\<forall>p \<in> set ps. p < nextTable c2"
    proof
      fix p assume "p \<in> set ps"
      then have "p \<in> set (dependentTables (linkSets c old))" by (simp add: ps_def)
      from dependents_allocated [OF assms this] show "p < nextTable c2"
        by (simp add: c2_def c1_def t_def)
    qed
    have t_lt: "t < nextTable c2" by (simp add: c2_def c1_def)
    note F = fold_linkTables [OF inv2 ps_lt t_lt]
    have old_unique: "\<And>v. documentInfos c v = Some old \<Longrightarrow> v = u"
      using assms Some by (auto simp: coordinatorInv_def)
    have ret_old: "retired old c2"
      using old_lt old_unique
      by (auto simp: retired_def c2_def noEdges_detachTable_self)
         (auto simp: c1_def split: if_splits)
    have ret2: "\<And>z. retired z c \<Longrightarrow> retired z c2"
      using ret1 by (auto simp: retired_def c2_def intro: noEdges_detachTable)
    have "retired old (fold (\<lambda>p. linkTables p t) ps c2)"
      using F ret_old old_lt by (auto simp: ps_def)
    moreover have "\<And>z. retired z c \<Longrightarrow> retired z (fold (\<lambda>p. linkTables p t) ps c2)"
    proof -
      fix z assume r: "retired z c"
      then have "z \<notin> set ps" using retired_not_dependent [OF assms r] by (simp add: ps_def)
      moreover have "z \<noteq> t" using r by (auto simp: retired_def t_def)
      ultimately show "retired z (fold (\<lambda>p. linkTables p t) ps c2)"
        using F ret2 [OF r] by blast
    qed
    ultimately show ?thesis
      using F Some by (simp add: rb) (simp add: c2_def c1_def t_def)
  qed
qed

text \<open>
  \<open>extends c c'\<close>: the coordinator \<open>c'\<close> is well formed and has grown out of
  \<open>c\<close>: every document of \<open>c\<close> has kept its table, and the tables out of use have
  stayed so.
\<close>

definition extends :: "Coordinator \<Rightarrow> Coordinator \<Rightarrow> bool" where
  "extends c c' =
     (coordinatorInv c' \<and> nextTable c \<le> nextTable c' \<and>
      (\<forall>v t. documentInfos c v = Some t \<longrightarrow> documentInfos c' v = Some t) \<and>
      (\<forall>z. retired z c \<longrightarrow> retired z c'))"

definition analyse_ok :: "(string \<Rightarrow> Coordinator \<Rightarrow> Coordinator) \<Rightarrow> bool" where
  "analyse_ok analyse =
     (\<forall>u c. coordinatorInv c \<longrightarrow> documentInfos c u = None \<longrightarrow> extends c (analyse u c))"

lemma extends_refl: "coordinatorInv c \<Longrightarrow> extends c c"
  by (simp add: extends_def)

lemma extends_trans: "extends a b \<Longrightarrow> extends b c \<Longrightarrow> extends a c"
  by (auto simp: extends_def)

lemma extends_linkTables:
  assumes "coordinatorInv c" "documentInfos c ua = Some a" "documentInfos c ub = Some b"
  shows "extends c (linkTables a b c)"
proof -
  have "a < nextTable c" "b < nextTable c"
    using assms by (auto simp: coordinatorInv_def)
  then have "coordinatorInv (linkTables a b c)"
    using assms(1) by (simp add: coordinatorInv_linkTables)
  moreover have "\<And>z. retired z c \<Longrightarrow> retired z (linkTables a b c)"
    using assms(2,3) by (intro retired_linkTables) (auto simp: retired_def)
  ultimately show ?thesis by (simp add: extends_def)
qed

lemma extends_loadDependency:
  assumes "analyse_ok analyse" "coordinatorInv c" "documentInfos c u0 = Some t"
  shows "extends c (loadDependency analyse t u c)"
proof (cases "documentInfos c u")
  case (Some d)
  with extends_linkTables [OF assms(2,3) Some] show ?thesis
    by (simp add: loadDependency_def)
next
  case None
  with assms have e1: "extends c (analyse u c)" by (simp add: analyse_ok_def)
  then have inv': "coordinatorInv (analyse u c)"
    and t': "documentInfos (analyse u c) u0 = Some t"
    using assms(3) by (auto simp: extends_def)
  show ?thesis
  proof (cases "documentInfos (analyse u c) u")
    case None': None
    with None e1 show ?thesis by (simp add: loadDependency_def Let_def)
  next
    case (Some d)
    from extends_linkTables [OF inv' t' Some] e1 None Some show ?thesis
      by (auto simp: loadDependency_def Let_def intro: extends_trans)
  qed
qed

lemma extends_fold_loadDependency:
  assumes "analyse_ok analyse" "coordinatorInv c" "documentInfos c u0 = Some t"
  shows "extends c (fold (loadDependency analyse t) us c)"
  using assms(2,3)
proof (induction us arbitrary: c)
  case Nil
  then show ?case by (simp add: extends_refl)
next
  case (Cons u us)
  from extends_loadDependency [OF assms(1) Cons.prems] have
    e: "extends c (loadDependency analyse t u c)" .
  then have "coordinatorInv (loadDependency analyse t u c)"
    "documentInfos (loadDependency analyse t u c) u0 = Some t"
    using Cons.prems(2) by (auto simp: extends_def)
  from Cons.IH [OF this] e show ?case by (auto intro: extends_trans)
qed

lemma revalidate_props:
  assumes "analyse_ok analyse" "coordinatorInv c"
  shows "coordinatorInv (revalidate analyse loads u c)
       \<and> nextTable c < nextTable (revalidate analyse loads u c)
       \<and> documentInfos (revalidate analyse loads u c) u = Some (nextTable c)
       \<and> (\<forall>v t. v \<noteq> u \<longrightarrow> documentInfos c v = Some t
              \<longrightarrow> documentInfos (revalidate analyse loads u c) v = Some t)
       \<and> (\<forall>z. retired z c \<longrightarrow> retired z (revalidate analyse loads u c))
       \<and> (\<forall>old. documentInfos c u = Some old \<longrightarrow> retired old (revalidate analyse loads u c))"
proof -
  note R = rebuildTable_props [OF assms(2), of u]
  from R have inv: "coordinatorInv (rebuildTable u c)"
    and t: "documentInfos (rebuildTable u c) u = Some (nextTable c)" by simp_all
  from extends_fold_loadDependency [OF assms(1) inv t, of "loads u"]
  have E: "extends (rebuildTable u c) (revalidate analyse loads u c)"
    by (simp add: revalidate_def)
  from E R show ?thesis
    by (simp add: extends_def)
qed

lemma analyse_ok_revalidate:
  assumes "analyse_ok analyse"
  shows "analyse_ok (revalidate analyse loads)"
  unfolding analyse_ok_def
proof (intro allI impI)
  fix u c assume inv: "coordinatorInv c" and un: "documentInfos c u = None"
  note R = revalidate_props [OF assms inv, of loads u]
  have "\<And>v t. documentInfos c v = Some t \<Longrightarrow> v \<noteq> u" using un by auto
  with R show "extends c (revalidate analyse loads u c)"
    by (simp add: extends_def)
qed

lemma analyse_ok_validateDocument: "analyse_ok (validateDocument n loads)"
proof (induction n)
  case 0
  have "analyse_ok (\<lambda>u c. c)" by (simp add: analyse_ok_def extends_refl)
  then show ?case by (simp add: analyse_ok_revalidate)
next
  case (Suc n)
  then show ?case by (simp add: analyse_ok_revalidate)
qed

lemma validateDocument_props:
  assumes "coordinatorInv c"
  shows "coordinatorInv (validateDocument n loads u c)
       \<and> documentInfos (validateDocument n loads u c) u = Some (nextTable c)
       \<and> (\<forall>old. documentInfos c u = Some old \<longrightarrow> retired old (validateDocument n loads u c))"
proof (cases n)
  case 0
  have "analyse_ok (\<lambda>u c. c)" by (simp add: analyse_ok_def extends_refl)
  from revalidate_props [OF this assms, of loads u] 0 show ?thesis by simp
next
  case (Suc m)
  from revalidate_props [OF analyse_ok_validateDocument assms, of m loads loads u] Suc
  show ?thesis by simp
qed

lemma coordinatorInv_new: "coordinatorInv newCoordinator"
  by (simp add: coordinatorInv_def newCoordinator_def linksConsistent_def noEdges_def)

subsection \<open>The edges of a new table\<close>

text \<open>
  A sequence of validations: each step validates one document, with the load statements
  the documents have at that moment (a document may have been edited between two steps).
\<close>

definition validateAll ::
  "nat \<Rightarrow> ((string \<Rightarrow> string list) \<times> string) list \<Rightarrow> Coordinator \<Rightarrow> Coordinator" where
  "validateAll n steps c = fold (\<lambda>step. validateDocument n (fst step) (snd step)) steps c"

lemma coordinatorInv_validateAll:
  "coordinatorInv c \<Longrightarrow> coordinatorInv (validateAll n steps c)"
  unfolding validateAll_def
  by (induction steps arbitrary: c) (simp_all add: validateDocument_props)

lemma linkTables_dependency_other:
  "x \<noteq> a \<Longrightarrow> dependencyTables (linkSets (linkTables a b c) x) = dependencyTables (linkSets c x)"
  by (simp add: linkTables_def Let_def)

text \<open>\<open>keeps c c'\<close>: the tables allocated in \<open>c\<close> have in \<open>c'\<close> the dependencies
  they had.\<close>

definition keeps :: "Coordinator \<Rightarrow> Coordinator \<Rightarrow> bool" where
  "keeps c c' =
     (\<forall>x. x < nextTable c
        \<longrightarrow> dependencyTables (linkSets c' x) = dependencyTables (linkSets c x))"

definition analyse_keeps :: "(string \<Rightarrow> Coordinator \<Rightarrow> Coordinator) \<Rightarrow> bool" where
  "analyse_keeps analyse =
     (\<forall>u c. coordinatorInv c \<longrightarrow> documentInfos c u = None \<longrightarrow> keeps c (analyse u c))"

text \<open>Loading the dependencies of the table \<open>t\<close> changes the dependencies of no other
  table.\<close>

lemma keeps_loadDependency:
  assumes "analyse_ok analyse" "analyse_keeps analyse" "coordinatorInv c"
    and "x < nextTable c" "x \<noteq> t"
  shows "dependencyTables (linkSets (loadDependency analyse t u c) x)
           = dependencyTables (linkSets c x)"
proof (cases "documentInfos c u")
  case (Some d)
  with assms(5) show ?thesis by (simp add: loadDependency_def linkTables_dependency_other)
next
  case None
  with assms have "keeps c (analyse u c)" by (simp add: analyse_keeps_def)
  with assms(4) have "dependencyTables (linkSets (analyse u c) x) = dependencyTables (linkSets c x)"
    by (simp add: keeps_def)
  with None assms(5) show ?thesis
    by (simp add: loadDependency_def Let_def linkTables_dependency_other split: option.splits)
qed

lemma keeps_fold_loadDependency:
  assumes "analyse_ok analyse" "analyse_keeps analyse"
    and "coordinatorInv c" "documentInfos c u0 = Some t" "x < nextTable c" "x \<noteq> t"
  shows "dependencyTables (linkSets (fold (loadDependency analyse t) us c) x)
           = dependencyTables (linkSets c x)"
  using assms(3-5)
proof (induction us arbitrary: c)
  case Nil
  then show ?case by simp
next
  case (Cons u us)
  from extends_loadDependency [OF assms(1) Cons.prems(1,2)]
  have e: "extends c (loadDependency analyse t u c)" .
  then have "coordinatorInv (loadDependency analyse t u c)"
    "documentInfos (loadDependency analyse t u c) u0 = Some t"
    "x < nextTable (loadDependency analyse t u c)"
    using Cons.prems by (auto simp: extends_def)
  from Cons.IH [OF this]
    keeps_loadDependency [OF assms(1,2) Cons.prems(1) Cons.prems(3) assms(6)]
  show ?case by simp
qed

lemma rebuildTable_unregistered:
  "documentInfos c u = None \<Longrightarrow>
     rebuildTable u c = c\<lparr>documentInfos := (documentInfos c)(u \<mapsto> nextTable c),
                          nextTable := Suc (nextTable c)\<rparr>"
  by (simp add: rebuildTable_def Let_def)

lemma analyse_keeps_revalidate:
  assumes "analyse_ok analyse" "analyse_keeps analyse"
  shows "analyse_keeps (revalidate analyse loads)"
  unfolding analyse_keeps_def keeps_def
proof (intro allI impI)
  fix u c x
  assume inv: "coordinatorInv c" and un: "documentInfos c u = None" and x: "x < nextTable c"
  note R = rebuildTable_props [OF inv, of u]
  from R have inv': "coordinatorInv (rebuildTable u c)"
    and t: "documentInfos (rebuildTable u c) u = Some (nextTable c)"
    and x': "x < nextTable (rebuildTable u c)"
    using x by simp_all
  from x have ne: "x \<noteq> nextTable c" by simp
  have "dependencyTables (linkSets (revalidate analyse loads u c) x)
          = dependencyTables (linkSets (rebuildTable u c) x)"
    unfolding revalidate_def
    by (rule keeps_fold_loadDependency [OF assms inv' t x' ne])
  also have "\<dots> = dependencyTables (linkSets c x)"
    by (simp add: rebuildTable_unregistered [OF un])
  finally show "dependencyTables (linkSets (revalidate analyse loads u c) x)
          = dependencyTables (linkSets c x)" .
qed

lemma analyse_keeps_validateDocument: "analyse_keeps (validateDocument n loads)"
proof (induction n)
  case 0
  have "analyse_ok (\<lambda>u c. c)" "analyse_keeps (\<lambda>u c. c)"
    by (simp_all add: analyse_ok_def extends_refl analyse_keeps_def keeps_def)
  then show ?case by (simp add: analyse_keeps_revalidate)
next
  case (Suc n)
  then show ?case by (simp add: analyse_keeps_revalidate analyse_ok_validateDocument)
qed

text \<open>A table built anew has no dependency yet.\<close>

lemma fold_linkTables_dependency:
  "t \<notin> set ps \<Longrightarrow>
     dependencyTables (linkSets (fold (\<lambda>p. linkTables p t) ps c) t)
       = dependencyTables (linkSets c t)"
  by (induction ps arbitrary: c) (simp_all add: linkTables_dependency_other)

lemma rebuildTable_dependency:
  assumes "coordinatorInv c"
  shows "dependencyTables (linkSets (rebuildTable u c) (nextTable c)) = []"
proof -
  from assms have fresh: "noEdges (nextTable c) c" by (simp add: coordinatorInv_def)
  show ?thesis
  proof (cases "documentInfos c u")
    case None
    with fresh show ?thesis by (simp add: rebuildTable_unregistered noEdges_def)
  next
    case (Some old)
    with assms have "old < nextTable c" by (auto simp: coordinatorInv_def)
    then have ne: "nextTable c \<noteq> old" by simp
    have "nextTable c \<notin> set (removeAll old (dependentTables (linkSets c old)))"
      using fresh by (simp add: noEdges_def)
    from fold_linkTables_dependency [OF this] Some ne fresh show ?thesis
      by (simp add: rebuildTable_def Let_def detachTable_def noEdges_def)
  qed
qed

text \<open>
  The dependencies of the table \<open>t\<close> after its load statements: the ones it had, and
  the tables of the documents it loads. Either the analysis of a document that is not
  cached registers the document, or it does nothing (the innermost level).
\<close>

lemma dependency_fold_registers:
  assumes ok: "analyse_ok analyse" and kp: "analyse_keeps analyse"
    and reg: "\<forall>u c. coordinatorInv c \<longrightarrow> documentInfos c u = None
                \<longrightarrow> documentInfos (analyse u c) u \<noteq> None"
    and "coordinatorInv c" "documentInfos c u0 = Some t"
  shows "set (dependencyTables (linkSets (fold (loadDependency analyse t) us c) t))
           = set (dependencyTables (linkSets c t))
             \<union> {d. \<exists>v \<in> set us. documentInfos (fold (loadDependency analyse t) us c) v = Some d}"
  using assms(4,5)
proof (induction us arbitrary: c)
  case Nil
  then show ?case by simp
next
  case (Cons u us)
  define c1 where "c1 = loadDependency analyse t u c"
  define cf where "cf = fold (loadDependency analyse t) us c1"
  from extends_loadDependency [OF ok Cons.prems] have e: "extends c c1" by (simp add: c1_def)
  then have inv1: "coordinatorInv c1" and t1: "documentInfos c1 u0 = Some t"
    using Cons.prems(2) by (auto simp: extends_def)
  from extends_fold_loadDependency [OF ok inv1 t1, of us] have ef: "extends c1 cf"
    by (simp add: cf_def)
  from Cons.prems have tlt: "t < nextTable c" by (auto simp: coordinatorInv_def)
  have step: "\<exists>d. documentInfos c1 u = Some d \<and>
      set (dependencyTables (linkSets c1 t)) = insert d (set (dependencyTables (linkSets c t)))"
  proof (cases "documentInfos c u")
    case (Some d)
    then show ?thesis by (simp add: c1_def loadDependency_def linkTables_dependency)
  next
    case None
    with reg Cons.prems(1) obtain d where d: "documentInfos (analyse u c) u = Some d" by blast
    from kp Cons.prems(1) None have "keeps c (analyse u c)" by (simp add: analyse_keeps_def)
    with tlt have "dependencyTables (linkSets (analyse u c) t) = dependencyTables (linkSets c t)"
      by (simp add: keeps_def)
    with None d show ?thesis
      by (simp add: c1_def loadDependency_def Let_def linkTables_dependency)
  qed
  then obtain d where d1: "documentInfos c1 u = Some d"
    and s1: "set (dependencyTables (linkSets c1 t)) = insert d (set (dependencyTables (linkSets c t)))"
    by blast
  from ef d1 have df: "documentInfos cf u = Some d" by (simp add: extends_def)
  from Cons.IH [OF inv1 t1]
  have "set (dependencyTables (linkSets cf t))
          = set (dependencyTables (linkSets c1 t))
            \<union> {d. \<exists>v \<in> set us. documentInfos cf v = Some d}"
    by (simp add: cf_def)
  with s1 df have "set (dependencyTables (linkSets cf t))
          = set (dependencyTables (linkSets c t))
            \<union> {d. \<exists>v \<in> set (u # us). documentInfos cf v = Some d}"
    by auto
  then show ?case by (simp add: cf_def c1_def)
qed

lemma loadDependency_innermost:
  "loadDependency (\<lambda>u c. c) t u c
     = (case documentInfos c u of Some d \<Rightarrow> linkTables t d c | None \<Rightarrow> c)"
  by (simp add: loadDependency_def Let_def split: option.splits)

lemma dependency_fold_innermost:
  "documentInfos (fold (loadDependency (\<lambda>u c. c) t) us c) = documentInfos c \<and>
   set (dependencyTables (linkSets (fold (loadDependency (\<lambda>u c. c) t) us c) t))
     = set (dependencyTables (linkSets c t)) \<union> {d. \<exists>v \<in> set us. documentInfos c v = Some d}"
proof (induction us arbitrary: c)
  case Nil
  then show ?case by simp
next
  case (Cons u us)
  define c1 where "c1 = loadDependency (\<lambda>u c. c) t u c"
  have d1: "documentInfos c1 = documentInfos c"
    by (simp add: c1_def loadDependency_innermost split: option.splits)
  have s1: "set (dependencyTables (linkSets c1 t))
      = set (dependencyTables (linkSets c t)) \<union> {d. documentInfos c u = Some d}"
    by (auto simp: c1_def loadDependency_innermost linkTables_dependency split: option.splits)
  from Cons.IH [of c1] d1 s1 show ?case
    by (auto simp: c1_def)
qed

lemma revalidate_dependency:
  assumes ok: "analyse_ok analyse" and kp: "analyse_keeps analyse"
    and reg: "(\<forall>u c. coordinatorInv c \<longrightarrow> documentInfos c u = None
                \<longrightarrow> documentInfos (analyse u c) u \<noteq> None) \<or> analyse = (\<lambda>u c. c)"
    and inv: "coordinatorInv c"
  shows "set (dependencyTables (linkSets (revalidate analyse loads u c) (nextTable c)))
           = {d. \<exists>v \<in> set (loads u). documentInfos (revalidate analyse loads u c) v = Some d}"
proof -
  note R = rebuildTable_props [OF inv, of u]
  from R have inv': "coordinatorInv (rebuildTable u c)"
    and t: "documentInfos (rebuildTable u c) u = Some (nextTable c)" by simp_all
  note E = rebuildTable_dependency [OF inv, of u]
  from reg show ?thesis
  proof
    assume "\<forall>u c. coordinatorInv c \<longrightarrow> documentInfos c u = None
                \<longrightarrow> documentInfos (analyse u c) u \<noteq> None"
    from dependency_fold_registers [OF ok kp this inv' t, of "loads u"] E
    show ?thesis by (simp add: revalidate_def)
  next
    assume "analyse = (\<lambda>u c. c)"
    with dependency_fold_innermost [of "nextTable c" "loads u" "rebuildTable u c"] E
    show ?thesis by (simp add: revalidate_def)
  qed
qed

lemma validateDocument_dependency:
  assumes "coordinatorInv c"
  shows "set (dependencyTables (linkSets (validateDocument n loads u c) (nextTable c)))
           = {d. \<exists>v \<in> set (loads u). documentInfos (validateDocument n loads u c) v = Some d}"
proof (cases n)
  case 0
  have "analyse_ok (\<lambda>u c. c)" "analyse_keeps (\<lambda>u c. c)"
    by (simp_all add: analyse_ok_def extends_refl analyse_keeps_def keeps_def)
  from revalidate_dependency [OF this _ assms, of loads u] 0 show ?thesis by simp
next
  case (Suc m)
  have "\<forall>u c. coordinatorInv c \<longrightarrow> documentInfos c u = None
          \<longrightarrow> documentInfos (validateDocument m loads u c) u \<noteq> None"
    by (simp add: validateDocument_props)
  then have "(\<forall>u c. coordinatorInv c \<longrightarrow> documentInfos c u = None
          \<longrightarrow> documentInfos (validateDocument m loads u c) u \<noteq> None)
        \<or> validateDocument m loads = (\<lambda>u c. c)" ..
  from revalidate_dependency [OF analyse_ok_validateDocument analyse_keeps_validateDocument
      this assms, of loads u] Suc
  show ?thesis by simp
qed

text \<open>The other documents keep their tables.\<close>

lemma validateDocument_others:
  assumes "coordinatorInv c" "v \<noteq> u" "documentInfos c v = Some d"
  shows "documentInfos (validateDocument n loads u c) v = Some d"
proof (cases n)
  case 0
  have "analyse_ok (\<lambda>u c. c)" by (simp add: analyse_ok_def extends_refl)
  from revalidate_props [OF this assms(1), of loads u] assms(2,3) 0 show ?thesis by simp
next
  case (Suc m)
  from revalidate_props [OF analyse_ok_validateDocument assms(1), of m loads loads u] assms(2,3) Suc
  show ?thesis by simp
qed

text \<open>
  C8. Start from the coordinator without documents and run any sequence of validations,
  each with the load statements of its moment: the link sets are consistent. Validate
  one more document \<open>u\<close>, with any load statements: the link sets are consistent
  again; the table of \<open>u\<close> is a new object (before the validation it was no
  document's table and had no edge); its dependencies are exactly the tables of the
  documents that \<open>u\<close> loads now; the other documents keep their tables; and the table
  \<open>u\<close> had before, if it had one, is left without any edge: its two sets are empty,
  and it is in no set of any table.
\<close>

theorem validations_keep_links_consistent:
  "let c = validateAll n steps newCoordinator; c' = validateDocument n loads u c in
   linksConsistent c \<and> linksConsistent c' \<and>
   documentInfos c' u = Some (nextTable c) \<and>
   (\<forall>v. documentInfos c v \<noteq> Some (nextTable c)) \<and>
   noEdges (nextTable c) c \<and>
   set (dependencyTables (linkSets c' (nextTable c)))
     = {d. \<exists>v \<in> set (loads u). documentInfos c' v = Some d} \<and>
   set (dependentTables (linkSets c' (nextTable c)))
     = {a. nextTable c \<in> set (dependencyTables (linkSets c' a))} \<and>
   (\<forall>v d. v \<noteq> u \<longrightarrow> documentInfos c v = Some d \<longrightarrow> documentInfos c' v = Some d) \<and>
   (\<forall>old. documentInfos c u = Some old \<longrightarrow> noEdges old c')"
proof -
  define c where "c = validateAll n steps newCoordinator"
  define c' where "c' = validateDocument n loads u c"
  have inv: "coordinatorInv c"
    unfolding c_def by (rule coordinatorInv_validateAll) (rule coordinatorInv_new)
  note V = validateDocument_props [OF inv, of n loads u]
  have 1: "linksConsistent c" using inv by (simp add: coordinatorInv_def)
  have 2: "linksConsistent c'" using V by (simp add: coordinatorInv_def c'_def)
  have 3: "documentInfos c' u = Some (nextTable c)" using V by (simp add: c'_def)
  have 4: "\<forall>v. documentInfos c v \<noteq> Some (nextTable c)"
    using inv by (auto simp: coordinatorInv_def)
  have 5: "noEdges (nextTable c) c"
    using inv by (simp add: coordinatorInv_def)
  have 6: "set (dependencyTables (linkSets c' (nextTable c)))
     = {d. \<exists>v \<in> set (loads u). documentInfos c' v = Some d}"
    unfolding c'_def by (rule validateDocument_dependency [OF inv])
  have 7: "set (dependentTables (linkSets c' (nextTable c)))
     = {a. nextTable c \<in> set (dependencyTables (linkSets c' a))}"
    using 2 by (auto simp: linksConsistent_def)
  have 8: "\<forall>v d. v \<noteq> u \<longrightarrow> documentInfos c v = Some d \<longrightarrow> documentInfos c' v = Some d"
    unfolding c'_def by (simp add: validateDocument_others [OF inv])
  have 9: "\<forall>old. documentInfos c u = Some old \<longrightarrow> noEdges old c'"
    using V by (simp add: retired_def c'_def)
  from 1 2 3 4 5 6 7 8 9 show ?thesis
    unfolding Let_def c'_def c_def by blast
qed

text \<open>
  Document \<open>a\<close> loads document \<open>b\<close> and is validated: its table \<open>0\<close> depends on
  the table \<open>1\<close> of \<open>b\<close>. Then \<open>a\<close> is edited, loads document \<open>c\<close> instead, and is
  validated again: the table \<open>0\<close> has no edge left, and the new table \<open>2\<close> of \<open>a\<close>
  depends on the table \<open>3\<close> of \<open>c\<close> and on nothing else.
\<close>

definition example_loads :: "string \<Rightarrow> string list" where
  "example_loads u = (if u = ''a'' then [''b''] else [])"

definition example_loads_edited :: "string \<Rightarrow> string list" where
  "example_loads_edited u = (if u = ''a'' then [''c''] else [])"

lemmas coordinator_defs =
  validateAll_def revalidate_def rebuildTable_def loadDependency_def linkTables_def
  detachTable_def example_loads_def example_loads_edited_def newCoordinator_def Let_def

lemma example_before:
  "documentInfos (validateAll (Suc 0) [(example_loads, ''a'')] newCoordinator) ''a'' = Some 0 \<and>
   nextTable (validateAll (Suc 0) [(example_loads, ''a'')] newCoordinator) = 2 \<and>
   dependencyTables (linkSets (validateAll (Suc 0) [(example_loads, ''a'')] newCoordinator) 0)
     = [1] \<and>
   dependentTables (linkSets (validateAll (Suc 0) [(example_loads, ''a'')] newCoordinator) 1)
     = [0]"
  by (simp add: coordinator_defs)

lemma example_after:
  "documentInfos
     (validateDocument (Suc 0) example_loads_edited ''a''
        (validateAll (Suc 0) [(example_loads, ''a'')] newCoordinator)) ''c'' = Some 3"
  by (simp add: coordinator_defs)

theorem validations_keep_links_consistent_witness:
  "dependencyTables (linkSets (validateAll (Suc 0) [(example_loads, ''a'')] newCoordinator) 0)
     = [1] \<and>
   dependentTables (linkSets (validateAll (Suc 0) [(example_loads, ''a'')] newCoordinator) 1)
     = [0] \<and>
   documentInfos (validateAll (Suc 0) [(example_loads, ''a'')] newCoordinator) ''a'' = Some 0 \<and>
   documentInfos
     (validateDocument (Suc 0) example_loads_edited ''a''
        (validateAll (Suc 0) [(example_loads, ''a'')] newCoordinator)) ''a'' = Some 2 \<and>
   noEdges 0
     (validateDocument (Suc 0) example_loads_edited ''a''
        (validateAll (Suc 0) [(example_loads, ''a'')] newCoordinator)) \<and>
   set (dependencyTables (linkSets
     (validateDocument (Suc 0) example_loads_edited ''a''
        (validateAll (Suc 0) [(example_loads, ''a'')] newCoordinator)) 2)) = {3} \<and>
   linksConsistent
     (validateDocument (Suc 0) example_loads_edited ''a''
        (validateAll (Suc 0) [(example_loads, ''a'')] newCoordinator))"
proof -
  note T = validations_keep_links_consistent
    [of "Suc 0" "[(example_loads, ''a'')]" example_loads_edited "''a''", unfolded Let_def]
  have "{d. \<exists>v \<in> set (example_loads_edited ''a''). documentInfos
     (validateDocument (Suc 0) example_loads_edited ''a''
        (validateAll (Suc 0) [(example_loads, ''a'')] newCoordinator)) v = Some d} = {3}"
    using example_after by (simp add: example_loads_edited_def)
  with T example_before show ?thesis by simp
qed


section \<open>Parser (parser/parser.ts)\<close>

subsection \<open>Syntax tree, parse errors and the parser's state\<close>

text \<open>
  A syntax node is a tagged variant that owns the ordered list of its parts. A node is
  written \<open>Node kind parts\<close>, where \<open>kind\<close> is the name of its class
  (\<open>Inst.Print\<close>, \<open>Expr.Binary\<close>, \<open>Decl.Func\<close>, ...) and the parts are
  the arguments of its constructor in their order: a token, a node, a list of nodes, a
  flag, or \<open>undefined\<close> for an argument that is absent.
\<close>

datatype Node =
    Token IToken
  | Undefined
  | Flag bool
  | Nodes "Node list"
  | Node string "Node list"

text \<open>A token that may be \<open>undefined\<close>, as a part of a node.\<close>

definition tok :: "IToken option \<Rightarrow> Node" where
  "tok t = (case t of None \<Rightarrow> Undefined | Some x \<Rightarrow> Token x)"

text \<open>
  A parse error (\<open>./parserError\<close>): the token, the construct that failed
  (\<open>failed.expr\<close> and \<open>failed.inst\<close>, each a class or \<open>undefined\<close>), the
  message, the extra information and the inner errors.
\<close>

type_synonym NodeConstructor = string

datatype ParseError =
  ParseError (errToken: "IToken option") (failedExpr: "NodeConstructor option")
    (failedInst: "NodeConstructor option") (errMessage: string) (otherInfo: "string list")
    (inner: "ParseError list")

definition setFailedInst :: "NodeConstructor option \<Rightarrow> ParseError \<Rightarrow> ParseError" where
  "setFailedInst inst e =
     ParseError (errToken e) (failedExpr e) inst (errMessage e) (otherInfo e) (inner e)"

definition setInner :: "ParseError list \<Rightarrow> ParseError \<Rightarrow> ParseError" where
  "setInner errs e =
     ParseError (errToken e) (failedExpr e) (failedInst e) (errMessage e) (otherInfo e) errs"

text \<open>\<open>INodeResult\<close>: a node (or a list of nodes) and the errors found inside it.\<close>

type_synonym NodeResult = "Node \<times> ParseError list"

text \<open>
  The parser's state: the fields \<open>tokens\<close>, \<open>current\<close> and \<open>runInsts\<close> of
  the class, and \<open>strayReads\<close>, which the class does not have: the indices that were
  read outside the array of tokens, in order.
\<close>

record Parser =
  tokens :: "IToken list"
  current :: nat
  runInsts :: "Node list"
  strayReads :: "int list"

text \<open>
  What the parser is given from outside src: \<open>isValidIdentifier\<close>
  (entities/tokentypes), and which classes are subclasses of \<open>Expr.Expr\<close> and of
  \<open>Inst.Inst\<close> (the \<open>instanceof\<close> tests of \<open>error\<close>).
\<close>

record ParserConfig =
  isValidIdentifier :: "TokenType \<Rightarrow> bool"
  instanceofExpr :: "NodeConstructor \<Rightarrow> bool"
  instanceofInst :: "NodeConstructor \<Rightarrow> bool"

subsection \<open>Computations of the parser\<close>

text \<open>
  A method of the parser either returns a result in a new state, throws a
  \<open>ParseError\<close> in a new state, or throws something else (a \<open>TypeError\<close> on
  reading a field of \<open>undefined\<close>): \<open>Crash\<close>. The recursion of the parser is
  bounded by a number of nested calls; \<open>None\<close> is a computation that ran out of them.
\<close>

datatype 'a outcome = Ok 'a Parser | Throw ParseError Parser | Crash

type_synonym 'a parserM = "Parser \<Rightarrow> 'a outcome option"

definition ret :: "'a \<Rightarrow> 'a parserM" where
  "ret a = (\<lambda>s. Some (Ok a s))"

definition throw :: "ParseError \<Rightarrow> 'a parserM" where
  "throw e = (\<lambda>s. Some (Throw e s))"

definition bnd :: "'a parserM \<Rightarrow> ('a \<Rightarrow> 'b parserM) \<Rightarrow> 'b parserM" where
  "bnd m k =
     (\<lambda>s. case m s of
            None \<Rightarrow> None
          | Some (Ok a s') \<Rightarrow> k a s'
          | Some (Throw e s') \<Rightarrow> Some (Throw e s')
          | Some Crash \<Rightarrow> Some Crash)"

text \<open>\<open>try { m } catch (error) { if (error instanceof ParseError) h(error); throw error; }\<close>\<close>

definition tryCatch :: "'a parserM \<Rightarrow> (ParseError \<Rightarrow> 'a parserM) \<Rightarrow> 'a parserM" where
  "tryCatch m h =
     (\<lambda>s. case m s of
            Some (Throw e s') \<Rightarrow> h e s'
          | r \<Rightarrow> r)"

subsection \<open>Reading tokens\<close>

text \<open>An array read, \<open>this.tokens[i]\<close>: \<open>undefined\<close> outside the array, where the
  read is recorded.\<close>

definition tokenAt :: "IToken list \<Rightarrow> int \<Rightarrow> IToken option" where
  "tokenAt ts i = (if 0 \<le> i \<and> i < int (length ts) then Some (ts ! nat i) else None)"

definition readToken :: "int \<Rightarrow> IToken option parserM" where
  "readToken i =
     (\<lambda>s. Some (Ok (tokenAt (tokens s) i)
                   (if 0 \<le> i \<and> i < int (length (tokens s)) then s
                    else s\<lparr>strayReads := strayReads s @ [i]\<rparr>)))"

definition peek :: "IToken option parserM" where
  "peek = (\<lambda>s. readToken (int (current s)) s)"

definition previous :: "IToken option parserM" where
  "previous = (\<lambda>s. readToken (int (current s) - 1) s)"

definition peekNext :: "IToken option parserM" where
  "peekNext =
     bnd (\<lambda>s. readToken (int (current s) + 1) s) (\<lambda>nextToken.
       ret (case nextToken of
              None \<Rightarrow> None
            | Some t \<Rightarrow> if tokenType t = tt_eof then None else Some t))"

text \<open>\<open>this.peek().type\<close> and \<open>this.previous().type\<close>: a \<open>TypeError\<close> when the
  token is \<open>undefined\<close>.\<close>

definition typeOf :: "IToken option \<Rightarrow> TokenType parserM" where
  "typeOf t = (case t of None \<Rightarrow> (\<lambda>s. Some Crash) | Some x \<Rightarrow> ret (tokenType x))"

definition peekType :: "TokenType parserM" where
  "peekType = bnd peek typeOf"

definition previousType :: "TokenType parserM" where
  "previousType = bnd previous typeOf"

definition isAtEnd :: "bool parserM" where
  "isAtEnd = bnd peekType (\<lambda>t. ret (t = tt_eof))"

definition advance :: "IToken option parserM" where
  "advance =
     bnd isAtEnd (\<lambda>atEnd.
     bnd (if \<not> atEnd then (\<lambda>s. Some (Ok () (s\<lparr>current := current s + 1\<rparr>))) else ret ())
       (\<lambda>_. previous))"

definition check :: "TokenType \<Rightarrow> bool parserM" where
  "check tokenType' =
     bnd isAtEnd (\<lambda>atEnd.
       if atEnd then ret False
       else bnd peekType (\<lambda>t. ret (t = tokenType')))"

definition checkNext :: "TokenType \<Rightarrow> bool parserM" where
  "checkNext tokenType' =
     bnd peekNext (\<lambda>nextToken.
       ret (case nextToken of None \<Rightarrow> False | Some t \<Rightarrow> tokenType t = tokenType'))"

text \<open>\<open>types.some(t => this.check(t))\<close>\<close>

fun someCheck :: "TokenType list \<Rightarrow> bool parserM" where
  "someCheck [] = ret False"
| "someCheck (t # ts) = bnd (check t) (\<lambda>found. if found then ret True else someCheck ts)"

definition matchToken :: "TokenType list \<Rightarrow> bool parserM" where
  "matchToken types =
     bnd (someCheck types) (\<lambda>found.
       if found then bnd advance (\<lambda>_. ret True) else ret False)"

definition identifierCheck :: "ParserConfig \<Rightarrow> bool parserM" where
  "identifierCheck cfg =
     bnd isAtEnd (\<lambda>atEnd.
       if atEnd then ret False
       else bnd peekType (\<lambda>t. ret (isValidIdentifier cfg t)))"

definition matchIdentifier :: "ParserConfig \<Rightarrow> bool parserM" where
  "matchIdentifier cfg =
     bnd (identifierCheck cfg) (\<lambda>found.
       if found then bnd advance (\<lambda>_. ret True) else ret False)"

subsection \<open>Errors\<close>

text \<open>
  \<open>error\<close>: the failed construct is recorded as an expression or as an instruction
  according to the class it is; \<open>failedUnknown()\<close> records neither.
\<close>

definition error ::
  "ParserConfig \<Rightarrow> IToken option \<Rightarrow> NodeConstructor option \<Rightarrow> string \<Rightarrow> string list
     \<Rightarrow> ParseError" where
  "error cfg token failed msg extraInfo =
     (case failed of
        None \<Rightarrow> ParseError token None None msg extraInfo []
      | Some c \<Rightarrow>
          if instanceofExpr cfg c then ParseError token (Some c) None msg extraInfo []
          else if instanceofInst cfg c then ParseError token None (Some c) msg extraInfo []
          else ParseError token None None msg extraInfo [])"

definition consumeIdentifierThrow ::
  "ParserConfig \<Rightarrow> string \<Rightarrow> NodeConstructor \<Rightarrow> IToken option parserM" where
  "consumeIdentifierThrow cfg msg failed =
     bnd (matchIdentifier cfg) (\<lambda>found.
       if found then previous
       else bnd previous (\<lambda>p. throw (error cfg p (Some failed) msg [])))"

definition consumeTokenThrow ::
  "ParserConfig \<Rightarrow> string \<Rightarrow> NodeConstructor \<Rightarrow> TokenType list \<Rightarrow> IToken option parserM" where
  "consumeTokenThrow cfg msg failed tokenType' =
     bnd (matchToken tokenType') (\<lambda>found.
       if found then previous
       else bnd previous (\<lambda>p. throw (error cfg p (Some failed) msg [])))"

definition consumeTokenReturn ::
  "ParserConfig \<Rightarrow> string \<Rightarrow> NodeConstructor \<Rightarrow> TokenType list
     \<Rightarrow> (ParseError + IToken option) parserM" where
  "consumeTokenReturn cfg msg failed tokenType' =
     bnd (matchToken tokenType') (\<lambda>found.
       if found then bnd previous (\<lambda>p. ret (Inr p))
       else bnd previous (\<lambda>p. ret (Inl (error cfg p (Some failed) msg []))))"

definition terminal :: "ParserConfig \<Rightarrow> NodeConstructor \<Rightarrow> IToken option parserM" where
  "terminal cfg failed = consumeTokenThrow cfg ''Expected \".\".'' failed [tt_period]"

definition addRunInst :: "Node \<Rightarrow> ParseError list \<Rightarrow> NodeResult parserM" where
  "addRunInst inst errors =
     (\<lambda>s. Some (Ok (inst, errors) (s\<lparr>runInsts := runInsts s @ [inst]\<rparr>)))"

subsection \<open>The points of recursion\<close>

text \<open>
  The methods that call themselves, directly or through others, and the loops of the
  parser are reached through one table, \<open>rec\<close>, indexed by the names below; a loop
  is named with the values it carries from one round to the next. Every other method
  calls the methods it uses directly.
\<close>

datatype BinaryLevel =
  L_or | L_and | L_equality | L_comparison | L_addition | L_multiplication

datatype nonterm =
    NT_declaration
  | NT_expression "NodeConstructor option"
  | NT_unary
  | BinaryLoop BinaryLevel NodeResult
  | FactorLoop NodeResult
  | SuffixLoop NodeResult
  | SuffixTermLoop bool NodeResult
  | ArgumentsLoop "Node list" "ParseError list"
  | NormalParametersLoop "Node list"
  | DefaultedParametersLoop "Node list" "ParseError list"
  | DeclarationsLoop "Node list" "ParseError list"
  | SynchronizeLoop
  | ParseLoop "Node list" "ParseError list"

type_synonym rec_table = "nonterm \<Rightarrow> NodeResult parserM"
subsection \<open>Expressions\<close>

text \<open>\<open>nodeResult(value, ...errors)\<close> pairs the node with the errors, appended in order.\<close>

definition arrayIndex :: "ParserConfig \<Rightarrow> Node \<Rightarrow> bool \<Rightarrow> NodeResult parserM" where
  "arrayIndex cfg array isTrailer =
     bnd previous (\<lambda>indexer.
     bnd (consumeTokenThrow cfg ''Expected integer or identifer.'' ''Expr.ArrayIndex''
            [tt_integer, tt_identifier]) (\<lambda>index.
     ret (Node ''Expr.ArrayIndex'' [array, tok indexer, tok index, Flag isTrailer], [])))"

definition arrayBracket ::
  "ParserConfig \<Rightarrow> rec_table \<Rightarrow> Node \<Rightarrow> bool \<Rightarrow> NodeResult parserM" where
  "arrayBracket cfg rec array isTrailer =
     bnd previous (\<lambda>open.
     bnd (rec (NT_expression None)) (\<lambda>index.
     bnd (consumeTokenThrow cfg ''Expected \"]\" at end of array index.'' ''Expr.ArrayBracket''
            [tt_squareClose]) (\<lambda>close.
     ret (Node ''Expr.ArrayBracket'' [array, tok open, fst index, tok close, Flag isTrailer],
          snd index))))"

definition arguments :: "rec_table \<Rightarrow> NodeResult parserM" where
  "arguments rec =
     bnd isAtEnd (\<lambda>atEnd.
       if atEnd then ret (Nodes [], [])
       else bnd (check tt_bracketClose) (\<lambda>closing.
              if closing then ret (Nodes [], [])
              else rec (ArgumentsLoop [] [])))"

text \<open>One round of \<open>do { ... } while (this.matchToken(TokenType.comma))\<close>.\<close>

definition argumentsLoop ::
  "rec_table \<Rightarrow> Node list \<Rightarrow> ParseError list \<Rightarrow> NodeResult parserM" where
  "argumentsLoop rec args errors =
     bnd (rec (NT_expression None)) (\<lambda>arg.
     bnd (matchToken [tt_comma]) (\<lambda>again.
       if again then rec (ArgumentsLoop (args @ [fst arg]) (errors @ snd arg))
       else ret (Nodes (args @ [fst arg]), errors @ snd arg)))"

definition functionTrailer ::
  "ParserConfig \<Rightarrow> rec_table \<Rightarrow> Node \<Rightarrow> bool \<Rightarrow> NodeResult parserM" where
  "functionTrailer cfg rec callee isTrailer =
     bnd previous (\<lambda>open.
     bnd (arguments rec) (\<lambda>args.
     bnd (consumeTokenThrow cfg ''Expect \")\" after arguments.'' ''Expr.Call''
            [tt_bracketClose]) (\<lambda>close.
     ret (Node ''Expr.Call'' [callee, tok open, fst args, tok close, Flag isTrailer],
          snd args))))"

definition atom :: "ParserConfig \<Rightarrow> rec_table \<Rightarrow> bool \<Rightarrow> NodeResult parserM" where
  "atom cfg rec isTrailer =
     bnd (matchToken [tt_false, tt_true, tt_fileIdentifier, tt_string, tt_integer, tt_double])
       (\<lambda>literal.
       if literal then bnd previous (\<lambda>p. ret (Node ''Expr.Literal'' [tok p, Flag isTrailer], []))
       else bnd peekType (\<lambda>t.
         if isValidIdentifier cfg t
         then bnd advance (\<lambda>a. ret (Node ''Expr.Variable'' [tok a, Flag isTrailer], []))
         else bnd (matchToken [tt_bracketOpen]) (\<lambda>grouping.
           if grouping then
             bnd previous (\<lambda>open.
             bnd (rec (NT_expression None)) (\<lambda>expr.
             bnd (consumeTokenThrow cfg ''Expect \")\" after expression'' ''Expr.Grouping''
                    [tt_bracketClose]) (\<lambda>close.
             ret (Node ''Expr.Grouping'' [tok open, fst expr, tok close, Flag isTrailer],
                  snd expr))))
           else bnd peek (\<lambda>p. throw (error cfg p None ''Expected expression.'' [])))))"

definition suffixTerm :: "ParserConfig \<Rightarrow> rec_table \<Rightarrow> bool \<Rightarrow> NodeResult parserM" where
  "suffixTerm cfg rec isTrailer =
     bnd (atom cfg rec isTrailer) (\<lambda>expr. rec (SuffixTermLoop isTrailer expr))"

text \<open>One round of the \<open>while (true)\<close> of \<open>suffixTerm\<close>.\<close>

definition suffixTermLoop ::
  "ParserConfig \<Rightarrow> rec_table \<Rightarrow> bool \<Rightarrow> NodeResult \<Rightarrow> NodeResult parserM" where
  "suffixTermLoop cfg rec isTrailer expr =
     bnd (matchToken [tt_arrayIndex]) (\<lambda>m1.
       if m1 then
         bnd (arrayIndex cfg (fst expr) isTrailer) (\<lambda>index.
         rec (SuffixTermLoop isTrailer (fst index, snd expr @ snd index)))
       else bnd (matchToken [tt_squareOpen]) (\<lambda>m2.
         if m2 then
           bnd (arrayBracket cfg rec (fst expr) isTrailer) (\<lambda>bracket.
           rec (SuffixTermLoop isTrailer (fst bracket, snd expr @ snd bracket)))
         else bnd (matchToken [tt_bracketOpen]) (\<lambda>m3.
           if m3 then
             bnd (functionTrailer cfg rec (fst expr) isTrailer) (\<lambda>trailer.
             rec (SuffixTermLoop isTrailer (fst trailer, snd expr @ snd trailer)))
           else bnd (matchToken [tt_atSign]) (\<lambda>m4.
             if m4 then
               bnd previous (\<lambda>p.
               ret (Node ''Expr.Delegate'' [fst expr, tok p, Flag isTrailer], snd expr))
             else ret expr))))"

definition suffixTrailer :: "ParserConfig \<Rightarrow> rec_table \<Rightarrow> Node \<Rightarrow> NodeResult parserM" where
  "suffixTrailer cfg rec suffix' =
     bnd previous (\<lambda>colon.
     bnd (suffixTerm cfg rec True) (\<lambda>trailer.
     ret (Node ''Expr.Suffix'' [suffix', tok colon, fst trailer], snd trailer)))"

definition suffix :: "ParserConfig \<Rightarrow> rec_table \<Rightarrow> NodeResult parserM" where
  "suffix cfg rec = bnd (suffixTerm cfg rec False) (\<lambda>expr. rec (SuffixLoop expr))"

text \<open>One round of \<open>while (this.matchToken(TokenType.colon))\<close>.\<close>

definition suffixLoop :: "ParserConfig \<Rightarrow> rec_table \<Rightarrow> NodeResult \<Rightarrow> NodeResult parserM" where
  "suffixLoop cfg rec expr =
     bnd (matchToken [tt_colon]) (\<lambda>again.
       if again then
         bnd (suffixTrailer cfg rec (fst expr)) (\<lambda>trailer.
         rec (SuffixLoop (fst trailer, snd expr @ snd trailer)))
       else ret expr)"

definition suffixCatch ::
  "ParserConfig \<Rightarrow> rec_table \<Rightarrow> NodeConstructor \<Rightarrow> NodeResult parserM" where
  "suffixCatch cfg rec inst =
     tryCatch (suffix cfg rec) (\<lambda>error'. throw (setFailedInst (Some inst) error'))"

definition factor :: "ParserConfig \<Rightarrow> rec_table \<Rightarrow> NodeResult parserM" where
  "factor cfg rec = bnd (suffix cfg rec) (\<lambda>expr. rec (FactorLoop expr))"

text \<open>One round of \<open>while (this.matchToken(TokenType.power))\<close>; the node result of a
  factor carries the errors of the exponent only.\<close>

definition factorLoop :: "ParserConfig \<Rightarrow> rec_table \<Rightarrow> NodeResult \<Rightarrow> NodeResult parserM" where
  "factorLoop cfg rec expr =
     bnd (matchToken [tt_power]) (\<lambda>again.
       if again then
         bnd previous (\<lambda>power.
         bnd (suffix cfg rec) (\<lambda>exponent.
         rec (FactorLoop (Node ''Expr.Factor'' [fst expr, tok power, fst exponent],
                          snd exponent))))
       else ret expr)"

definition unary :: "ParserConfig \<Rightarrow> rec_table \<Rightarrow> NodeResult parserM" where
  "unary cfg rec =
     bnd (matchToken [tt_plus, tt_minus, tt_not, tt_defined]) (\<lambda>found.
       if found then
         bnd previous (\<lambda>operator.
         bnd (rec NT_unary) (\<lambda>unary'.
         ret (Node ''Expr.Unary'' [tok operator, fst unary'], snd unary')))
       else factor cfg rec)"

text \<open>
  \<open>binaryExpression(recurse, ...types)\<close>: the first operand, then the loop. The
  level names the pair of \<open>recurse\<close> and \<open>types\<close> for the rounds of the loop.
\<close>

definition binaryExpression ::
  "rec_table \<Rightarrow> BinaryLevel \<Rightarrow> NodeResult parserM \<Rightarrow> NodeResult parserM" where
  "binaryExpression rec level recurse = bnd recurse (\<lambda>expr. rec (BinaryLoop level expr))"

text \<open>One round of \<open>while (this.matchToken(...types))\<close>.\<close>

definition binaryLoop ::
  "rec_table \<Rightarrow> BinaryLevel \<Rightarrow> NodeResult parserM \<Rightarrow> TokenType list \<Rightarrow> NodeResult
     \<Rightarrow> NodeResult parserM" where
  "binaryLoop rec level recurse types expr =
     bnd (matchToken types) (\<lambda>again.
       if again then
         bnd previous (\<lambda>operator.
         bnd recurse (\<lambda>right.
         rec (BinaryLoop level (Node ''Expr.Binary'' [fst expr, tok operator, fst right],
                                snd expr @ snd right))))
       else ret expr)"

definition multiplication :: "ParserConfig \<Rightarrow> rec_table \<Rightarrow> NodeResult parserM" where
  "multiplication cfg rec = binaryExpression rec L_multiplication (unary cfg rec)"

definition addition :: "ParserConfig \<Rightarrow> rec_table \<Rightarrow> NodeResult parserM" where
  "addition cfg rec = binaryExpression rec L_addition (multiplication cfg rec)"

definition comparison :: "ParserConfig \<Rightarrow> rec_table \<Rightarrow> NodeResult parserM" where
  "comparison cfg rec = binaryExpression rec L_comparison (addition cfg rec)"

definition equality :: "ParserConfig \<Rightarrow> rec_table \<Rightarrow> NodeResult parserM" where
  "equality cfg rec = binaryExpression rec L_equality (comparison cfg rec)"

definition andExpr :: "ParserConfig \<Rightarrow> rec_table \<Rightarrow> NodeResult parserM" where
  "andExpr cfg rec = binaryExpression rec L_and (equality cfg rec)"

definition orExpr :: "ParserConfig \<Rightarrow> rec_table \<Rightarrow> NodeResult parserM" where
  "orExpr cfg rec = binaryExpression rec L_or (andExpr cfg rec)"

fun binaryRecurse :: "ParserConfig \<Rightarrow> rec_table \<Rightarrow> BinaryLevel \<Rightarrow> NodeResult parserM" where
  "binaryRecurse cfg rec L_or = andExpr cfg rec"
| "binaryRecurse cfg rec L_and = equality cfg rec"
| "binaryRecurse cfg rec L_equality = comparison cfg rec"
| "binaryRecurse cfg rec L_comparison = addition cfg rec"
| "binaryRecurse cfg rec L_addition = multiplication cfg rec"
| "binaryRecurse cfg rec L_multiplication = unary cfg rec"

fun binaryTypes :: "BinaryLevel \<Rightarrow> TokenType list" where
  "binaryTypes L_or = [tt_or]"
| "binaryTypes L_and = [tt_and]"
| "binaryTypes L_equality = [tt_equal, tt_notEqual]"
| "binaryTypes L_comparison = [tt_less, tt_greater, tt_lessEqual, tt_greaterEqual]"
| "binaryTypes L_addition = [tt_plus, tt_minus]"
| "binaryTypes L_multiplication = [tt_multi, tt_div]"

text \<open>
  \<open>anonymousFunction\<close>: the instructions up to the closing brace (the loop is the
  one of \<open>instructionBlock\<close>, word for word), the brace, and the errors of the block
  bundled into one error that is thrown.
\<close>

definition anonymousFunction :: "ParserConfig \<Rightarrow> rec_table \<Rightarrow> NodeResult parserM" where
  "anonymousFunction cfg rec =
     bnd previous (\<lambda>open.
     bnd (rec (DeclarationsLoop [] [])) (\<lambda>block.
     bnd (consumeTokenThrow cfg ''Expected \"}\" to finish instruction block''
            ''Expr.AnonymousFunction'' [tt_curlyClose]) (\<lambda>close.
       if length (snd block) > 0
       then throw (setInner (snd block)
                     (error cfg open (Some ''Expr.AnonymousFunction'')
                        ''Error found in this block.'' []))
       else ret (Node ''Expr.AnonymousFunction'' [tok open, fst block, tok close],
                 snd block))))"

definition expression ::
  "ParserConfig \<Rightarrow> rec_table \<Rightarrow> NodeConstructor option \<Rightarrow> NodeResult parserM" where
  "expression cfg rec inst =
     tryCatch
       (bnd (matchToken [tt_curlyOpen]) (\<lambda>found.
          if found then anonymousFunction cfg rec else orExpr cfg rec))
       (\<lambda>error'. throw (setFailedInst inst error'))"

text \<open>One round of the loop of \<open>instructionBlock\<close> and of \<open>anonymousFunction\<close>:
  \<open>while (!this.check(TokenType.curlyClose) && !this.isAtEnd())\<close>.\<close>

definition declarationsLoop ::
  "rec_table \<Rightarrow> Node list \<Rightarrow> ParseError list \<Rightarrow> NodeResult parserM" where
  "declarationsLoop rec declarations parseErrors =
     bnd (check tt_curlyClose) (\<lambda>closing.
       if closing then ret (Nodes declarations, parseErrors)
       else bnd isAtEnd (\<lambda>atEnd.
         if atEnd then ret (Nodes declarations, parseErrors)
         else bnd (rec NT_declaration) (\<lambda>inst.
              rec (DeclarationsLoop (declarations @ [fst inst]) (parseErrors @ snd inst)))))"
subsection \<open>Declarations\<close>

text \<open>
  \<open>instructionBlock\<close>: the instructions up to the closing brace, then the brace; when
  the brace is missing, the error that \<open>consumeTokenReturn\<close> gives back takes the errors
  of the block as its inner errors and is thrown.
\<close>

definition instructionBlock :: "ParserConfig \<Rightarrow> rec_table \<Rightarrow> NodeResult parserM" where
  "instructionBlock cfg rec =
     bnd previous (\<lambda>open.
     bnd (rec (DeclarationsLoop [] [])) (\<lambda>block.
     bnd (consumeTokenReturn cfg ''Expected \"}\" to finish instruction block'' ''Inst.Block''
            [tt_curlyClose]) (\<lambda>close.
       case close of
         Inl parseError \<Rightarrow> throw (setInner (snd block) parseError)
       | Inr closeToken \<Rightarrow>
           ret (Node ''Inst.Block'' [tok open, fst block, tok closeToken], snd block))))"

definition declareFunction_parser ::
  "ParserConfig \<Rightarrow> rec_table \<Rightarrow> Node \<Rightarrow> NodeResult parserM" where
  "declareFunction_parser cfg rec scope' =
     bnd previous (\<lambda>functionToken.
     bnd (consumeIdentifierThrow cfg ''Expected identifier'' ''Decl.Func'') (\<lambda>functionIdentiifer.
     bnd (matchToken [tt_curlyOpen]) (\<lambda>found.
       if found then
         bnd (instructionBlock cfg rec) (\<lambda>blockResult.
         bnd (matchToken [tt_period]) (\<lambda>_.
         ret (Node ''Decl.Func''
                [tok functionToken, tok functionIdentiifer, fst blockResult, scope'],
              snd blockResult)))
       else
         bnd peek (\<lambda>p.
         throw (error cfg p (Some ''Decl.Func'')
                  ''Expected function instruction block starting with \"{\"''
                  [''Example: local function { print \"hi\". }''])))))"

text \<open>
  One round of the \<open>do ... while (this.matchToken(TokenType.comma))\<close> of
  \<open>declareNormalParameters\<close>; the method returns the parameters, without errors. The
  round ends when \<open>this.checkNext(TokenType.is) || this.checkNext(TokenType.to)\<close>; the
  second test is made when the first one fails.
\<close>

definition normalParametersLoop ::
  "ParserConfig \<Rightarrow> rec_table \<Rightarrow> Node list \<Rightarrow> NodeResult parserM" where
  "normalParametersLoop cfg rec parameters =
     bnd (checkNext tt_is) (\<lambda>nextIs.
     bnd (if nextIs then ret True else checkNext tt_to) (\<lambda>defaulted.
       if defaulted then ret (Nodes parameters, [])
       else
         bnd (consumeIdentifierThrow cfg ''Expected additional identiifer following comma.''
                ''Decl.Parameter'') (\<lambda>identifer.
         bnd (matchToken [tt_comma]) (\<lambda>again.
           if again
           then rec (NormalParametersLoop (parameters @ [Node ''Decl.Parameter'' [tok identifer]]))
           else ret (Nodes (parameters @ [Node ''Decl.Parameter'' [tok identifer]]), [])))))"

definition declareNormalParameters :: "rec_table \<Rightarrow> NodeResult parserM" where
  "declareNormalParameters rec = rec (NormalParametersLoop [])"

text \<open>One round of the \<open>do ... while\<close> of \<open>declaredDefaultedParameters\<close>.\<close>

definition defaultedParametersLoop ::
  "ParserConfig \<Rightarrow> rec_table \<Rightarrow> Node list \<Rightarrow> ParseError list \<Rightarrow> NodeResult parserM" where
  "defaultedParametersLoop cfg rec defaultParameters errors =
     bnd (checkNext tt_is) (\<lambda>nextIs.
     bnd (if nextIs then ret True else checkNext tt_to) (\<lambda>defaulted.
       if \<not> defaulted then ret (Nodes defaultParameters, errors)
       else
         bnd (consumeIdentifierThrow cfg ''Expected identifier following comma.''
                ''Decl.DefaultParam'') (\<lambda>identifer.
         bnd (consumeTokenThrow cfg ''Expected default parameter using keyword \"to\" or \"is\".''
                ''Decl.DefaultParam'' [tt_to, tt_is]) (\<lambda>toIs.
         bnd (expression cfg rec None) (\<lambda>valueResult.
         bnd (matchToken [tt_comma]) (\<lambda>again.
           if again
           then rec (DefaultedParametersLoop
                       (defaultParameters
                          @ [Node ''Decl.DefaultParam'' [tok identifer, tok toIs, fst valueResult]])
                       (errors @ snd valueResult))
           else ret (Nodes (defaultParameters
                              @ [Node ''Decl.DefaultParam''
                                   [tok identifer, tok toIs, fst valueResult]]),
                     errors @ snd valueResult)))))))"

definition declaredDefaultedParameters :: "rec_table \<Rightarrow> NodeResult parserM" where
  "declaredDefaultedParameters rec = rec (DefaultedParametersLoop [] [])"

definition declareParameter_parser ::
  "ParserConfig \<Rightarrow> rec_table \<Rightarrow> Node \<Rightarrow> NodeResult parserM" where
  "declareParameter_parser cfg rec scope' =
     bnd previous (\<lambda>parameterToken.
     bnd (declareNormalParameters rec) (\<lambda>parameters.
     bnd (declaredDefaultedParameters rec) (\<lambda>defaultParameters.
     bnd (terminal cfg ''Decl.Param'') (\<lambda>_.
     ret (Node ''Decl.Param''
            [tok parameterToken, fst parameters, fst defaultParameters, scope'],
          snd defaultParameters)))))"

definition declareLock_parser ::
  "ParserConfig \<Rightarrow> rec_table \<Rightarrow> Node \<Rightarrow> NodeResult parserM" where
  "declareLock_parser cfg rec scope' =
     bnd previous (\<lambda>lock.
     bnd (consumeIdentifierThrow cfg ''Expected identifier following lock keyword.''
            ''Decl.Lock'') (\<lambda>identifer.
     bnd (consumeTokenThrow cfg ''Expected keyword \"to\" following lock.'' ''Decl.Lock''
            [tt_to]) (\<lambda>to.
     bnd (expression cfg rec (Some ''Decl.Lock'')) (\<lambda>valueResult.
     bnd (terminal cfg ''Decl.Lock'') (\<lambda>_.
     ret (Node ''Decl.Lock'' [tok lock, tok identifer, tok to, fst valueResult, scope'],
          snd valueResult))))))"

definition declareVariable_parser ::
  "ParserConfig \<Rightarrow> rec_table \<Rightarrow> Node \<Rightarrow> NodeResult parserM" where
  "declareVariable_parser cfg rec scope' =
     bnd (consumeIdentifierThrow cfg ''Expected identifier.'' ''Decl.Var'') (\<lambda>identifer.
     bnd (consumeTokenThrow cfg ''Expected keyword \"to\" or \"is\" following declare.''
            ''Decl.Var'' [tt_to, tt_is]) (\<lambda>toIs.
     bnd (expression cfg rec (Some ''Decl.Var'')) (\<lambda>valueResult.
     bnd (terminal cfg ''Decl.Var'') (\<lambda>_.
     ret (Node ''Decl.Var'' [tok identifer, tok toIs, fst valueResult, scope'],
          snd valueResult)))))"

text \<open>
  \<open>define\<close>: the optional \<open>declare\<close>, the optional \<open>local\<close> or \<open>global\<close>, and
  the declaration; \<open>scopeDeclare\<close> is a \<open>Decl.Scope\<close> when one of the two was found.
\<close>

definition scopeDeclare :: "IToken option \<Rightarrow> IToken option \<Rightarrow> Node" where
  "scopeDeclare declare' scope' =
     (if declare' \<noteq> None \<or> scope' \<noteq> None then Node ''Decl.Scope'' [tok scope', tok declare']
      else Undefined)"

definition defineInst :: "ParserConfig \<Rightarrow> rec_table \<Rightarrow> NodeResult parserM" where
  "defineInst cfg rec =
     bnd (matchToken [tt_declare]) (\<lambda>foundDeclare.
     bnd (if foundDeclare then previous else ret None) (\<lambda>declare'.
     bnd (matchToken [tt_local, tt_global]) (\<lambda>foundScope.
     bnd (if foundScope then previous else ret None) (\<lambda>scope'.
     bnd (matchToken [tt_function]) (\<lambda>isFunction.
       if isFunction then declareFunction_parser cfg rec (scopeDeclare declare' scope')
       else bnd (matchToken [tt_parameter]) (\<lambda>isParameter.
         if isParameter then declareParameter_parser cfg rec (scopeDeclare declare' scope')
         else bnd (matchToken [tt_lock]) (\<lambda>isLock.
           if isLock then declareLock_parser cfg rec (scopeDeclare declare' scope')
           else if scopeDeclare declare' scope' \<noteq> Undefined
             then declareVariable_parser cfg rec (scopeDeclare declare' scope')
             else
               bnd peek (\<lambda>p.
               throw (error cfg p (Some ''Decl.Scope'')
                        ''Expected function parameter or variable declaration.''
                        [''Example: \"local function exampleFunc { ... }\", \"global x is 0\"'']
                     )))))))))"
subsection \<open>Instructions\<close>

definition onOff :: "ParserConfig \<Rightarrow> Node \<Rightarrow> NodeResult parserM" where
  "onOff cfg suffix' =
     bnd previous (\<lambda>onOff'.
     bnd (terminal cfg ''Inst.OnOff'') (\<lambda>_.
     ret (Node ''Inst.OnOff'' [suffix', tok onOff'], [])))"

definition identifierLedInstruction :: "ParserConfig \<Rightarrow> rec_table \<Rightarrow> NodeResult parserM" where
  "identifierLedInstruction cfg rec =
     bnd (suffixCatch cfg rec ''Inst.Expr'') (\<lambda>suffix'.
     bnd (matchToken [tt_on, tt_off]) (\<lambda>found.
       if found then
         bnd (onOff cfg (fst suffix')) (\<lambda>onOff'.
         ret (fst onOff', snd suffix' @ snd onOff'))
       else
         bnd (terminal cfg ''Inst.Expr'') (\<lambda>_.
         ret (Node ''Inst.Expr'' [fst suffix'], snd suffix'))))"

definition command :: "ParserConfig \<Rightarrow> NodeResult parserM" where
  "command cfg =
     bnd previous (\<lambda>command'.
     bnd (terminal cfg ''Inst.Command'') (\<lambda>_.
     ret (Node ''Inst.Command'' [tok command'], [])))"

definition commandExpression :: "ParserConfig \<Rightarrow> rec_table \<Rightarrow> NodeResult parserM" where
  "commandExpression cfg rec =
     bnd previous (\<lambda>command'.
     bnd (expression cfg rec (Some ''Inst.CommandExpr'')) (\<lambda>expr.
     bnd (terminal cfg ''Inst.CommandExpr'') (\<lambda>_.
     ret (Node ''Inst.CommandExpr'' [tok command', fst expr], snd expr))))"

definition unset :: "ParserConfig \<Rightarrow> NodeResult parserM" where
  "unset cfg =
     bnd previous (\<lambda>unset'.
     bnd (consumeTokenThrow cfg ''Excpeted identifier or \"all\" following keyword \"unset\".''
            ''Inst.Unset'' [tt_identifier, tt_all]) (\<lambda>identifer.
     bnd (terminal cfg ''Inst.Unset'') (\<lambda>_.
     ret (Node ''Inst.Unset'' [tok unset', tok identifer], []))))"

definition unlock :: "ParserConfig \<Rightarrow> NodeResult parserM" where
  "unlock cfg =
     bnd previous (\<lambda>unlock'.
     bnd (consumeTokenThrow cfg ''Excpeted identifier or \"all\" following keyword \"unlock\".''
            ''Inst.Unlock'' [tt_identifier, tt_all]) (\<lambda>identifer.
     bnd (terminal cfg ''Inst.Unlock'') (\<lambda>_.
     ret (Node ''Inst.Unlock'' [tok unlock', tok identifer], []))))"

definition setInst :: "ParserConfig \<Rightarrow> rec_table \<Rightarrow> NodeResult parserM" where
  "setInst cfg rec =
     bnd previous (\<lambda>set'.
     bnd (suffixCatch cfg rec ''Inst.Set'') (\<lambda>suffix'.
     bnd (consumeTokenThrow cfg ''Expected \"to\" following keyword \"set\".'' ''Inst.Set''
            [tt_to]) (\<lambda>to.
     bnd (expression cfg rec (Some ''Inst.Set'')) (\<lambda>valueResult.
     bnd (terminal cfg ''Inst.Set'') (\<lambda>_.
     ret (Node ''Inst.Set'' [tok set', fst suffix', tok to, fst valueResult],
          snd suffix' @ snd valueResult))))))"

definition lazyGlobal :: "ParserConfig \<Rightarrow> NodeResult parserM" where
  "lazyGlobal cfg =
     bnd previous (\<lambda>atSign.
     bnd (consumeTokenThrow cfg ''Expected keyword \"lazyGlobal\" following @.''
            ''Inst.LazyGlobal'' [tt_lazyGlobal]) (\<lambda>lazyGlobal'.
     bnd (consumeTokenThrow cfg ''Expected \"on\" or \"off\" following lazy global directive.''
            ''Inst.LazyGlobal'' [tt_on, tt_off]) (\<lambda>onOff'.
     bnd (terminal cfg ''Inst.LazyGlobal'') (\<lambda>_.
     ret (Node ''Inst.LazyGlobal'' [tok atSign, tok lazyGlobal', tok onOff'], [])))))"

text \<open>\<open>ifInst\<close>: without an \<open>else\<close> the result carries the errors of the instruction
  only.\<close>

definition ifInst :: "ParserConfig \<Rightarrow> rec_table \<Rightarrow> NodeResult parserM" where
  "ifInst cfg rec =
     bnd previous (\<lambda>ifToken.
     bnd (expression cfg rec (Some ''Inst.If'')) (\<lambda>conditionResult.
     bnd (rec NT_declaration) (\<lambda>inst.
     bnd (matchToken [tt_period]) (\<lambda>_.
     bnd (matchToken [tt_else]) (\<lambda>found.
       if found then
         bnd previous (\<lambda>elseToken.
         bnd (rec NT_declaration) (\<lambda>elseResult.
         bnd (matchToken [tt_period]) (\<lambda>_.
         ret (Node ''Inst.If''
                [tok ifToken, fst conditionResult, fst inst,
                 Node ''Inst.Else'' [tok elseToken, fst elseResult]],
              snd conditionResult @ snd inst @ snd elseResult))))
       else
         ret (Node ''Inst.If'' [tok ifToken, fst conditionResult, fst inst, Undefined],
              snd inst))))))"

definition until :: "ParserConfig \<Rightarrow> rec_table \<Rightarrow> NodeResult parserM" where
  "until cfg rec =
     bnd previous (\<lambda>until'.
     bnd (expression cfg rec (Some ''Inst.Until'')) (\<lambda>conditionResult.
     bnd (rec NT_declaration) (\<lambda>inst.
     bnd (matchToken [tt_period]) (\<lambda>_.
     ret (Node ''Inst.Until'' [tok until', fst conditionResult, fst inst],
          snd conditionResult @ snd inst)))))"

definition fromInst :: "ParserConfig \<Rightarrow> rec_table \<Rightarrow> NodeResult parserM" where
  "fromInst cfg rec =
     bnd previous (\<lambda>from'.
     bnd (matchToken [tt_curlyOpen]) (\<lambda>found.
       if found then
         bnd (instructionBlock cfg rec) (\<lambda>initResult.
         bnd (consumeTokenThrow cfg ''Expected \"until\" expression following from.''
                ''Inst.From'' [tt_until]) (\<lambda>until'.
         bnd (expression cfg rec (Some ''Inst.From'')) (\<lambda>conditionResult.
         bnd (consumeTokenThrow cfg ''Expected \"step\" statment following until.''
                ''Inst.From'' [tt_step]) (\<lambda>step.
         bnd (matchToken [tt_curlyOpen]) (\<lambda>found'.
           if found' then
             bnd (instructionBlock cfg rec) (\<lambda>incrementResult.
             bnd (consumeTokenThrow cfg ''Expected \"do\" block following step.''
                    ''Inst.From'' [tt_do]) (\<lambda>doToken.
             bnd (rec NT_declaration) (\<lambda>inst.
             ret (Node ''Inst.From''
                    [tok from', fst initResult, tok until', fst conditionResult, tok step,
                     fst incrementResult, tok doToken, fst inst],
                  snd initResult @ snd conditionResult @ snd incrementResult @ snd inst))))
           else
             bnd peek (\<lambda>p.
             throw (error cfg p (Some ''Inst.From'')
                      ''Expected \"{\" followed by step block logic.''
                      [''Example: FROM {LOCAL x is 0.} UNTIL x >= 10 STEP { set x to x + 1. } { print x. }'']
                   )))))))
       else
         bnd peek (\<lambda>p.
         throw (error cfg p (Some ''Inst.From'')
                  ''Expected \"{\" followed by initializer logic''
                  [''Example: FROM {LOCAL x is 0.} UNTIL x >= 10 STEP { set x to x + 1. } { print x. }'']
               ))))"

definition whenInst :: "ParserConfig \<Rightarrow> rec_table \<Rightarrow> NodeResult parserM" where
  "whenInst cfg rec =
     bnd previous (\<lambda>when'.
     bnd (expression cfg rec (Some ''Inst.When'')) (\<lambda>conditionResult.
     bnd (consumeTokenThrow cfg ''Expected \"then\" following \"when\" condition.''
            ''Inst.When'' [tt_then]) (\<lambda>then'.
     bnd (rec NT_declaration) (\<lambda>inst.
     bnd (matchToken [tt_period]) (\<lambda>_.
     ret (Node ''Inst.When'' [tok when', fst conditionResult, tok then', fst inst],
          snd conditionResult @ snd inst))))))"

definition returnInst :: "ParserConfig \<Rightarrow> rec_table \<Rightarrow> NodeResult parserM" where
  "returnInst cfg rec =
     bnd previous (\<lambda>returnToken.
     bnd (check tt_period) (\<lambda>isPeriod.
       if isPeriod then
         bnd (terminal cfg ''Inst.Return'') (\<lambda>_.
         ret (Node ''Inst.Return'' [tok returnToken, Undefined], []))
       else
         bnd (expression cfg rec (Some ''Inst.Return'')) (\<lambda>valueResult.
         bnd (terminal cfg ''Inst.Return'') (\<lambda>_.
         ret (Node ''Inst.Return'' [tok returnToken, fst valueResult], snd valueResult)))))"

definition breakInst :: "ParserConfig \<Rightarrow> NodeResult parserM" where
  "breakInst cfg =
     bnd previous (\<lambda>breakToken.
     bnd (terminal cfg ''Inst.Break'') (\<lambda>_.
     ret (Node ''Inst.Break'' [tok breakToken], [])))"

definition switchInst :: "ParserConfig \<Rightarrow> rec_table \<Rightarrow> NodeResult parserM" where
  "switchInst cfg rec =
     bnd previous (\<lambda>switchToken.
     bnd (consumeTokenThrow cfg ''Expected \"to\" following keyword \"switch\".''
            ''Inst.Switch'' [tt_to]) (\<lambda>to.
     bnd (expression cfg rec (Some ''Inst.Switch'')) (\<lambda>targetResult.
     bnd (terminal cfg ''Inst.Switch'') (\<lambda>_.
     ret (Node ''Inst.Switch'' [tok switchToken, tok to, fst targetResult],
          snd targetResult)))))"

definition forInst :: "ParserConfig \<Rightarrow> rec_table \<Rightarrow> NodeResult parserM" where
  "forInst cfg rec =
     bnd previous (\<lambda>forToken.
     bnd (consumeIdentifierThrow cfg ''Expected identifier. following keyword \"for\"''
            ''Inst.For'') (\<lambda>identifer.
     bnd (consumeTokenThrow cfg ''Expected \"in\" after \"for\" loop variable.'' ''Inst.For''
            [tt_in]) (\<lambda>inToken.
     bnd (suffixCatch cfg rec ''Inst.For'') (\<lambda>suffix'.
     bnd (rec NT_declaration) (\<lambda>inst.
     bnd (matchToken [tt_period]) (\<lambda>_.
     ret (Node ''Inst.For'' [tok forToken, tok identifer, tok inToken, fst suffix', fst inst],
          snd suffix' @ snd inst)))))))"

definition onInst :: "ParserConfig \<Rightarrow> rec_table \<Rightarrow> NodeResult parserM" where
  "onInst cfg rec =
     bnd previous (\<lambda>on'.
     bnd (suffixCatch cfg rec ''Inst.On'') (\<lambda>suffix'.
     bnd (rec NT_declaration) (\<lambda>inst.
     ret (Node ''Inst.On'' [tok on', fst suffix', fst inst], snd suffix' @ snd inst))))"

definition toggle :: "ParserConfig \<Rightarrow> rec_table \<Rightarrow> NodeResult parserM" where
  "toggle cfg rec =
     bnd previous (\<lambda>toggle'.
     bnd (suffixCatch cfg rec ''Inst.Toggle'') (\<lambda>suffix'.
     bnd (terminal cfg ''Inst.Toggle'') (\<lambda>_.
     ret (Node ''Inst.Toggle'' [tok toggle', fst suffix'], snd suffix'))))"

definition wait :: "ParserConfig \<Rightarrow> rec_table \<Rightarrow> NodeResult parserM" where
  "wait cfg rec =
     bnd previous (\<lambda>wait'.
     bnd (matchToken [tt_until]) (\<lambda>found.
     bnd (if found then previous else ret None) (\<lambda>until'.
     bnd (expression cfg rec (Some ''Inst.Wait'')) (\<lambda>expr.
     bnd (terminal cfg ''Inst.Wait'') (\<lambda>_.
     ret (Node ''Inst.Wait'' [tok wait', fst expr, tok until'], snd expr))))))"

definition logInst :: "ParserConfig \<Rightarrow> rec_table \<Rightarrow> NodeResult parserM" where
  "logInst cfg rec =
     bnd previous (\<lambda>log'.
     bnd (expression cfg rec (Some ''Inst.Log'')) (\<lambda>expr.
     bnd (consumeTokenThrow cfg ''Expected \"to\" following \"log\" expression.'' ''Inst.Log''
            [tt_to]) (\<lambda>to.
     bnd (expression cfg rec (Some ''Inst.Log'')) (\<lambda>targetResult.
     bnd (terminal cfg ''Inst.Log'') (\<lambda>_.
     ret (Node ''Inst.Log'' [tok log', fst expr, tok to, fst targetResult],
          snd expr @ snd targetResult))))))"

definition copy :: "ParserConfig \<Rightarrow> rec_table \<Rightarrow> NodeResult parserM" where
  "copy cfg rec =
     bnd previous (\<lambda>copy'.
     bnd (expression cfg rec (Some ''Inst.Copy'')) (\<lambda>expr.
     bnd (consumeTokenThrow cfg ''Expected \"to\" or \"from\" following \"copy\" expression.''
            ''Inst.Copy'' [tt_from, tt_to]) (\<lambda>toFrom.
     bnd (expression cfg rec (Some ''Inst.Copy'')) (\<lambda>targetResult.
     bnd (terminal cfg ''Inst.Copy'') (\<lambda>_.
     ret (Node ''Inst.Copy'' [tok copy', fst expr, tok toFrom, fst targetResult],
          snd expr @ snd targetResult))))))"

definition rename :: "ParserConfig \<Rightarrow> rec_table \<Rightarrow> NodeResult parserM" where
  "rename cfg rec =
     bnd previous (\<lambda>rename'.
     bnd (consumeTokenThrow cfg ''Expected file or volume following keyword \"rename\"''
            ''Inst.Rename'' [tt_volume, tt_file]) (\<lambda>fileVolume.
     bnd (consumeTokenThrow cfg
            ''Expected identifier or file identifier following keyword \"rename\"''
            ''Inst.Rename'' [tt_identifier, tt_fileIdentifier]) (\<lambda>ioIdentifier.
     bnd (expression cfg rec (Some ''Inst.Rename'')) (\<lambda>expr.
     bnd (consumeTokenThrow cfg ''Expected \"to\" following keyword \"rename\".''
            ''Inst.Rename'' [tt_to]) (\<lambda>to.
     bnd (expression cfg rec (Some ''Inst.Rename'')) (\<lambda>targetResult.
     bnd (terminal cfg ''Inst.Rename'') (\<lambda>_.
     ret (Node ''Inst.Rename''
            [tok rename', tok fileVolume, tok ioIdentifier, fst expr, tok to, fst targetResult],
          snd expr @ snd targetResult))))))))"

definition delete :: "ParserConfig \<Rightarrow> rec_table \<Rightarrow> NodeResult parserM" where
  "delete cfg rec =
     bnd previous (\<lambda>deleteToken.
     bnd (expression cfg rec (Some ''Inst.Delete'')) (\<lambda>expr.
     bnd (matchToken [tt_from]) (\<lambda>found.
       if found then
         bnd previous (\<lambda>from'.
         bnd (expression cfg rec (Some ''Inst.Delete'')) (\<lambda>targetResult.
         bnd (terminal cfg ''Inst.Delete'') (\<lambda>_.
         ret (Node ''Inst.Delete'' [tok deleteToken, fst expr, tok from', fst targetResult],
              snd expr @ snd targetResult))))
       else
         bnd (terminal cfg ''Inst.Delete'') (\<lambda>_.
         ret (Node ''Inst.Delete'' [tok deleteToken, fst expr, Undefined, Undefined],
              snd expr)))))"
text \<open>
  \<open>run\<close>: the optional \<open>once\<close>, the program, the optional arguments in brackets and
  the optional \<open>on\<close> part, which assigns \<open>args\<close> again. The locals \<open>open\<close>,
  \<open>args\<close>, \<open>close\<close> and then \<open>on\<close>, \<open>args\<close>, \<open>expr\<close> are carried as triples.
\<close>

definition runInst :: "ParserConfig \<Rightarrow> rec_table \<Rightarrow> NodeResult parserM" where
  "runInst cfg rec =
     bnd previous (\<lambda>run'.
     bnd (matchToken [tt_once]) (\<lambda>found.
     bnd (if found then previous else ret None) (\<lambda>once.
     bnd (consumeTokenThrow cfg ''Expected string or fileidentifier following keyword \"run\".''
            ''Inst.Run'' [tt_string, tt_identifier, tt_fileIdentifier]) (\<lambda>identifier.
     bnd (matchToken [tt_bracketOpen]) (\<lambda>hasArgs.
     bnd (if hasArgs then
            bnd previous (\<lambda>open.
            bnd (arguments rec) (\<lambda>args.
            bnd (consumeTokenThrow cfg ''Expected \")\" after \"run\" arguments.'' ''Inst.Run''
                   [tt_bracketClose]) (\<lambda>close.
            ret (open, Some args, close))))
          else ret (None, None, None)) (\<lambda>bracket.
     bnd (matchToken [tt_on]) (\<lambda>hasOn.
     bnd (if hasOn then
            bnd previous (\<lambda>on'.
            bnd (arguments rec) (\<lambda>args.
            bnd (expression cfg rec (Some ''Inst.Run'')) (\<lambda>expr.
            ret (on', Some args, Some expr))))
          else ret (None, fst (snd bracket), None)) (\<lambda>onPart.
     bnd (terminal cfg ''Inst.Run'') (\<lambda>_.
       case snd (snd onPart) of
         None \<Rightarrow>
           (case fst (snd onPart) of
              None \<Rightarrow>
                addRunInst
                  (Node ''Inst.Run''
                     [tok run', tok identifier, tok once, tok (fst bracket), Undefined,
                      tok (snd (snd bracket)), tok (fst onPart), Undefined])
                  []
            | Some args \<Rightarrow>
                addRunInst
                  (Node ''Inst.Run''
                     [tok run', tok identifier, tok once, tok (fst bracket), fst args,
                      tok (snd (snd bracket)), tok (fst onPart), Undefined])
                  (snd args))
       | Some expr \<Rightarrow>
           (case fst (snd onPart) of
              None \<Rightarrow>
                addRunInst
                  (Node ''Inst.Run''
                     [tok run', tok identifier, tok once, tok (fst bracket), Undefined,
                      tok (snd (snd bracket)), tok (fst onPart), fst expr])
                  (snd expr)
            | Some args \<Rightarrow>
                addRunInst
                  (Node ''Inst.Run''
                     [tok run', tok identifier, tok once, tok (fst bracket), fst args,
                      tok (snd (snd bracket)), tok (fst onPart), fst expr])
                  (snd args @ snd expr)))))))))))"

definition runPath :: "ParserConfig \<Rightarrow> rec_table \<Rightarrow> NodeResult parserM" where
  "runPath cfg rec =
     bnd previous (\<lambda>runPath'.
     bnd (consumeTokenThrow cfg ''Expected \"(\" after keyword \"runPath\".'' ''Inst.RunPath''
            [tt_bracketOpen]) (\<lambda>open.
     bnd (expression cfg rec (Some ''Inst.RunPath'')) (\<lambda>expr.
     bnd (matchToken [tt_comma]) (\<lambda>found.
     bnd (if found then bnd (arguments rec) (\<lambda>a. ret (Some a)) else ret None) (\<lambda>args.
     bnd (consumeTokenThrow cfg ''Expected \")\" after runPath arguments.'' ''Inst.RunPath''
            [tt_bracketClose]) (\<lambda>close.
     bnd (terminal cfg ''Inst.RunPath'') (\<lambda>_.
       case args of
         None \<Rightarrow>
           addRunInst (Node ''Inst.RunPath'' [tok runPath', tok open, fst expr, tok close, Undefined])
             (snd expr)
       | Some a \<Rightarrow>
           addRunInst (Node ''Inst.RunPath'' [tok runPath', tok open, fst expr, tok close, fst a])
             (snd expr @ snd a))))))))"

definition runPathOnce :: "ParserConfig \<Rightarrow> rec_table \<Rightarrow> NodeResult parserM" where
  "runPathOnce cfg rec =
     bnd previous (\<lambda>runPath'.
     bnd (consumeTokenThrow cfg ''Expected \"(\" after keyword \"runPathOnce\".''
            ''Inst.RunPathOnce'' [tt_bracketOpen]) (\<lambda>open.
     bnd (expression cfg rec (Some ''Inst.RunPathOnce'')) (\<lambda>expr.
     bnd (matchToken [tt_comma]) (\<lambda>found.
     bnd (if found then bnd (arguments rec) (\<lambda>a. ret (Some a)) else ret None) (\<lambda>args.
     bnd (consumeTokenThrow cfg ''Expected \")\" after runPathOnce arugments.''
            ''Inst.RunPathOnce'' [tt_bracketClose]) (\<lambda>close.
     bnd (terminal cfg ''Inst.RunPathOnce'') (\<lambda>_.
       case args of
         None \<Rightarrow>
           addRunInst
             (Node ''Inst.RunPathOnce'' [tok runPath', tok open, fst expr, tok close, Undefined])
             (snd expr)
       | Some a \<Rightarrow>
           addRunInst
             (Node ''Inst.RunPathOnce'' [tok runPath', tok open, fst expr, tok close, fst a])
             (snd expr @ snd a))))))))"

definition compile :: "ParserConfig \<Rightarrow> rec_table \<Rightarrow> NodeResult parserM" where
  "compile cfg rec =
     bnd previous (\<lambda>compile'.
     bnd (expression cfg rec (Some ''Inst.Compile'')) (\<lambda>expr.
     bnd (matchToken [tt_to]) (\<lambda>found.
       if found then
         bnd previous (\<lambda>to.
         bnd (expression cfg rec (Some ''Inst.Compile'')) (\<lambda>targetResult.
         bnd (terminal cfg ''Inst.Compile'') (\<lambda>_.
         ret (Node ''Inst.Compile'' [tok compile', fst expr, tok to, fst targetResult],
              snd expr @ snd targetResult))))
       else
         bnd (terminal cfg ''Inst.Compile'') (\<lambda>_.
         ret (Node ''Inst.Compile'' [tok compile', fst expr, Undefined, Undefined],
              snd expr)))))"

text \<open>\<open>list\<close>: the locals \<open>identifier\<close>, \<open>inToken\<close> and \<open>target\<close> are carried as a
  triple.\<close>

definition listInst :: "ParserConfig \<Rightarrow> NodeResult parserM" where
  "listInst cfg =
     bnd previous (\<lambda>list'.
     bnd (matchIdentifier cfg) (\<lambda>found.
     bnd (if found then
            bnd previous (\<lambda>identifier.
            bnd (matchToken [tt_in]) (\<lambda>foundIn.
              if foundIn then
                bnd previous (\<lambda>inToken.
                bnd (consumeIdentifierThrow cfg
                       ''Expected identifier after \"in\" keyword in \"list\" command''
                       ''Inst.List'') (\<lambda>target.
                ret (identifier, inToken, target)))
              else ret (identifier, None, None)))
          else ret (None, None, None)) (\<lambda>found'.
     bnd (terminal cfg ''Inst.List'') (\<lambda>_.
     ret (Node ''Inst.List''
            [tok list', tok (fst found'), tok (fst (snd found')), tok (snd (snd found'))],
          [])))))"

definition printInst :: "ParserConfig \<Rightarrow> rec_table \<Rightarrow> NodeResult parserM" where
  "printInst cfg rec =
     bnd previous (\<lambda>print'.
     bnd (expression cfg rec (Some ''Inst.Print'')) (\<lambda>expr.
     bnd (matchToken [tt_at]) (\<lambda>found.
       if found then
         bnd previous (\<lambda>at'.
         bnd (consumeTokenThrow cfg ''Expected \"(\".'' ''Inst.Print'' [tt_bracketOpen]) (\<lambda>open.
         bnd (expression cfg rec (Some ''Inst.Print'')) (\<lambda>xResult.
         bnd (consumeTokenThrow cfg ''Expected \",\".'' ''Inst.Print'' [tt_comma]) (\<lambda>_.
         bnd (expression cfg rec (Some ''Inst.Print'')) (\<lambda>yResult.
         bnd (consumeTokenThrow cfg ''Expected \")\".'' ''Inst.Print'' [tt_bracketClose])
           (\<lambda>close.
         bnd (terminal cfg ''Inst.Print'') (\<lambda>_.
         ret (Node ''Inst.Print''
                [tok print', fst expr, tok at', tok open, fst xResult, fst yResult, tok close],
              snd expr @ snd xResult @ snd yResult))))))))
       else
         bnd (terminal cfg ''Inst.Print'') (\<lambda>_.
         ret (Node ''Inst.Print''
                [tok print', fst expr, Undefined, Undefined, Undefined, Undefined, Undefined],
              snd expr)))))"

text \<open>\<open>instruction\<close>: the \<open>switch\<close> on the kind of the current token.\<close>

definition instruction :: "ParserConfig \<Rightarrow> rec_table \<Rightarrow> NodeResult parserM" where
  "instruction cfg rec =
     bnd peekType (\<lambda>t.
       if t = tt_curlyOpen then bnd advance (\<lambda>_. instructionBlock cfg rec)
       else if t \<in> set [tt_integer, tt_double, tt_true, tt_false, tt_identifier,
                         tt_fileIdentifier, tt_bracketOpen, tt_string]
         then identifierLedInstruction cfg rec
       else if t \<in> set [tt_stage, tt_clearscreen, tt_preserve, tt_reboot, tt_shutdown]
         then bnd advance (\<lambda>_. command cfg)
       else if t \<in> set [tt_edit, tt_add, tt_remove]
         then bnd advance (\<lambda>_. commandExpression cfg rec)
       else if t = tt_unset then bnd advance (\<lambda>_. unset cfg)
       else if t = tt_unlock then bnd advance (\<lambda>_. unlock cfg)
       else if t = tt_set then bnd advance (\<lambda>_. setInst cfg rec)
       else if t = tt_atSign then bnd advance (\<lambda>_. lazyGlobal cfg)
       else if t = tt_if then bnd advance (\<lambda>_. ifInst cfg rec)
       else if t = tt_until then bnd advance (\<lambda>_. until cfg rec)
       else if t = tt_from then bnd advance (\<lambda>_. fromInst cfg rec)
       else if t = tt_when then bnd advance (\<lambda>_. whenInst cfg rec)
       else if t = tt_return then bnd advance (\<lambda>_. returnInst cfg rec)
       else if t = tt_break then bnd advance (\<lambda>_. breakInst cfg)
       else if t = tt_switch then bnd advance (\<lambda>_. switchInst cfg rec)
       else if t = tt_for then bnd advance (\<lambda>_. forInst cfg rec)
       else if t = tt_on then bnd advance (\<lambda>_. onInst cfg rec)
       else if t = tt_toggle then bnd advance (\<lambda>_. toggle cfg rec)
       else if t = tt_wait then bnd advance (\<lambda>_. wait cfg rec)
       else if t = tt_log then bnd advance (\<lambda>_. logInst cfg rec)
       else if t = tt_copy then bnd advance (\<lambda>_. copy cfg rec)
       else if t = tt_rename then bnd advance (\<lambda>_. rename cfg rec)
       else if t = tt_delete then bnd advance (\<lambda>_. delete cfg rec)
       else if t = tt_run then bnd advance (\<lambda>_. runInst cfg rec)
       else if t = tt_runPath then bnd advance (\<lambda>_. runPath cfg rec)
       else if t = tt_runOncePath then bnd advance (\<lambda>_. runPathOnce cfg rec)
       else if t = tt_compile then bnd advance (\<lambda>_. compile cfg rec)
       else if t = tt_list then bnd advance (\<lambda>_. listInst cfg)
       else if t = tt_print then bnd advance (\<lambda>_. printInst cfg rec)
       else if t = tt_period then bnd advance (\<lambda>a. ret (Node ''Inst.Empty'' [tok a], []))
       else
         bnd peek (\<lambda>p.
         throw (error cfg p None ''Unknown instruction found''
                  [''Examples: \"print \"hi\"\", \"LIST.\", \"RUN \"example.ks\"\"''])))"

subsection \<open>Synchronization and the statement loops\<close>

text \<open>The kinds of token at which \<open>synchronize\<close> stops.\<close>

definition synchronizeStops :: "TokenType list" where
  "synchronizeStops =
     [tt_declare, tt_function, tt_parameter, tt_lock, tt_local, tt_global,
      tt_stage, tt_clearscreen, tt_preserve, tt_reboot, tt_shutdown,
      tt_edit, tt_add, tt_remove,
      tt_unset, tt_unlock, tt_set,
      tt_if, tt_until, tt_from, tt_when, tt_return, tt_break, tt_switch, tt_for, tt_on,
      tt_toggle, tt_wait,
      tt_log, tt_copy, tt_rename, tt_delete, tt_run, tt_runPath, tt_runOncePath, tt_compile,
      tt_list, tt_print,
      tt_curlyClose]"

text \<open>One round of the \<open>while (!this.isAtEnd())\<close> of \<open>synchronize\<close>; the method
  returns nothing.\<close>

definition synchronizeLoop :: "rec_table \<Rightarrow> NodeResult parserM" where
  "synchronizeLoop rec =
     bnd isAtEnd (\<lambda>atEnd.
       if atEnd then ret (Undefined, [])
       else
         bnd previousType (\<lambda>previousType'.
           if previousType' = tt_period then ret (Undefined, [])
           else
             bnd peekType (\<lambda>t.
               if t \<in> set synchronizeStops then ret (Undefined, [])
               else bnd advance (\<lambda>_. rec SynchronizeLoop))))"

definition synchronize :: "rec_table \<Rightarrow> ParseError \<Rightarrow> NodeResult parserM" where
  "synchronize rec failed =
     bnd (if failedInst failed = None then advance else ret None) (\<lambda>_.
     rec SynchronizeLoop)"

text \<open>Reading the cursor, and \<open>this.tokens.slice(start, this.current)\<close>.\<close>

definition getCurrent :: "nat parserM" where
  "getCurrent = (\<lambda>s. Some (Ok (current s) s))"

definition tokensSlice :: "nat \<Rightarrow> IToken list parserM" where
  "tokensSlice start' = (\<lambda>s. Some (Ok (take (current s - start') (drop start' (tokens s))) s))"

text \<open>
  \<open>declaration\<close>: a declaration or an instruction; a parse error is caught, the parser
  synchronizes, and the result is an \<open>Inst.Invalid\<close> of the tokens from the start of
  the statement to the cursor, with the error.
\<close>

definition statement :: "ParserConfig \<Rightarrow> rec_table \<Rightarrow> NodeResult parserM" where
  "statement cfg rec =
     bnd (someCheck [tt_declare, tt_local, tt_global, tt_parameter, tt_function, tt_lock])
       (\<lambda>isDefine. if isDefine then defineInst cfg rec else instruction cfg rec)"

definition declarationInst :: "ParserConfig \<Rightarrow> rec_table \<Rightarrow> NodeResult parserM" where
  "declarationInst cfg rec =
     bnd getCurrent (\<lambda>start'.
     tryCatch (statement cfg rec)
       (\<lambda>error'.
          bnd (synchronize rec error') (\<lambda>_.
          bnd (tokensSlice start') (\<lambda>skipped.
          ret (Node ''Inst.Invalid'' [Nodes (map Token skipped)], [error'])))))"

text \<open>One round of the \<open>while (!this.isAtEnd())\<close> of \<open>parse\<close>.\<close>

definition parseLoop ::
  "rec_table \<Rightarrow> Node list \<Rightarrow> ParseError list \<Rightarrow> NodeResult parserM" where
  "parseLoop rec instructions parseErrors =
     bnd isAtEnd (\<lambda>atEnd.
       if atEnd then ret (Nodes instructions, parseErrors)
       else
         bnd (rec NT_declaration) (\<lambda>r.
         rec (ParseLoop (instructions @ [fst r]) (parseErrors @ snd r))))"

subsection \<open>The table of the recursive calls, and \<open>parse\<close>\<close>

definition body :: "ParserConfig \<Rightarrow> rec_table \<Rightarrow> rec_table" where
  "body cfg rec nt =
     (case nt of
        NT_declaration \<Rightarrow> declarationInst cfg rec
      | NT_expression inst \<Rightarrow> expression cfg rec inst
      | NT_unary \<Rightarrow> unary cfg rec
      | BinaryLoop level expr \<Rightarrow>
          binaryLoop rec level (binaryRecurse cfg rec level) (binaryTypes level) expr
      | FactorLoop expr \<Rightarrow> factorLoop cfg rec expr
      | SuffixLoop expr \<Rightarrow> suffixLoop cfg rec expr
      | SuffixTermLoop isTrailer expr \<Rightarrow> suffixTermLoop cfg rec isTrailer expr
      | ArgumentsLoop args errors \<Rightarrow> argumentsLoop rec args errors
      | NormalParametersLoop parameters \<Rightarrow> normalParametersLoop cfg rec parameters
      | DefaultedParametersLoop parameters errors \<Rightarrow>
          defaultedParametersLoop cfg rec parameters errors
      | DeclarationsLoop declarations errors \<Rightarrow> declarationsLoop rec declarations errors
      | SynchronizeLoop \<Rightarrow> synchronizeLoop rec
      | ParseLoop instructions errors \<Rightarrow> parseLoop rec instructions errors)"

text \<open>The table that allows \<open>n\<close> nested calls.\<close>

primrec parserRec :: "ParserConfig \<Rightarrow> nat \<Rightarrow> rec_table" where
  "parserRec cfg 0 = (\<lambda>nt s. None)"
| "parserRec cfg (Suc n) = body cfg (parserRec cfg n)"

text \<open>The constructor: the tokens with the end-of-file token that \<open>eof\<close> makes.\<close>

definition eof :: "IToken list \<Rightarrow> IToken" where
  "eof toks =
     (if length toks = 0
      then \<lparr>tokenType = tt_eof, lexeme = [], start = \<lparr>line = 0, character = 0\<rparr>,
            tend = \<lparr>line = 0, character = 1\<rparr>, uri = [], tracker = None\<rparr>
      else
        let last' = toks ! (length toks - 1)
        in \<lparr>tokenType = tt_eof, lexeme = [],
            start = \<lparr>line = line (tend last') + 1, character = 0\<rparr>,
            tend = \<lparr>line = line (tend last') + 1, character = 1\<rparr>,
            uri = uri last', tracker = None\<rparr>)"

definition newParser :: "IToken list \<Rightarrow> Parser" where
  "newParser toks = \<lparr>tokens = toks @ [eof toks], current = 0, runInsts = [], strayReads = []\<rparr>"

text \<open>
  \<open>parse\<close>: the statements up to the end of the tokens; anything that is thrown is
  caught, and the result is then empty. The result is \<open>None\<close> when \<open>fuel\<close> nested calls
  are not enough.
\<close>

record ParseResult =
  parseErrors :: "ParseError list"
  resultRunInsts :: "Node list"
  script :: "Node list"

fun nodesOf :: "Node \<Rightarrow> Node list" where
  "nodesOf (Nodes ns) = ns"
| "nodesOf _ = []"

definition parse :: "ParserConfig \<Rightarrow> nat \<Rightarrow> IToken list \<Rightarrow> ParseResult option" where
  "parse cfg fuel toks =
     (case parserRec cfg fuel (ParseLoop [] []) (newParser toks) of
        None \<Rightarrow> None
      | Some (Ok r s) \<Rightarrow>
          Some \<lparr>parseErrors = snd r, resultRunInsts = runInsts s, script = nodesOf (fst r)\<rparr>
      | Some _ \<Rightarrow> Some \<lparr>parseErrors = [], resultRunInsts = [], script = []\<rparr>)"
section \<open>The parser returns\<close>

subsection \<open>Well-formed states and progress\<close>

text \<open>The kind of the current token.\<close>

definition ptype :: "Parser \<Rightarrow> TokenType" where
  "ptype s = tokenType (tokens s ! current s)"

text \<open>
  A state of the parser at work: the cursor is on a token, the last token is the
  end-of-file token the constructor appended, the cursor has left the first token or is
  not at the end, and the only reads outside the array were of the position just after
  the last token.
\<close>

definition wf :: "Parser \<Rightarrow> bool" where
  "wf s =
     (current s < length (tokens s) \<and> tokenType (last (tokens s)) = tt_eof \<and>
      (0 < current s \<or> ptype s \<noteq> tt_eof) \<and>
      list_all (\<lambda>i. i = int (length (tokens s))) (strayReads s))"

text \<open>\<open>adv s s'\<close>: from \<open>s\<close> the parser has moved on to \<open>s'\<close>, over the same tokens.\<close>

definition adv :: "Parser \<Rightarrow> Parser \<Rightarrow> bool" where
  "adv s s' =
     (tokens s' = tokens s \<and> current s \<le> current s' \<and> current s' < length (tokens s) \<and> wf s')"

lemma wf_bound: "wf s \<Longrightarrow> current s < length (tokens s)"
  by (simp add: wf_def)

lemma adv_refl: "wf s \<Longrightarrow> adv s s"
  by (simp add: adv_def wf_bound)

lemma adv_trans: "adv s s1 \<Longrightarrow> adv s1 s2 \<Longrightarrow> adv s s2"
  by (simp add: adv_def)

lemma wf_step:
  assumes "wf s" "ptype s \<noteq> tt_eof"
  shows "wf (s\<lparr>current := Suc (current s)\<rparr>)"
proof -
  from assms have ne: "tokens s \<noteq> []" by (auto simp: wf_def)
  have "current s \<noteq> length (tokens s) - 1"
  proof
    assume "current s = length (tokens s) - 1"
    then have "tokens s ! current s = last (tokens s)" using ne by (simp add: last_conv_nth)
    with assms show False by (simp add: wf_def ptype_def)
  qed
  with assms(1) show ?thesis by (auto simp: wf_def)
qed

lemma adv_step:
  "wf s \<Longrightarrow> ptype s \<noteq> tt_eof \<Longrightarrow> adv s (s\<lparr>current := Suc (current s)\<rparr>)"
  using wf_step [of s] wf_bound [of "s\<lparr>current := Suc (current s)\<rparr>"] by (simp add: adv_def)

subsection \<open>Two runs of a computation\<close>

text \<open>
  \<open>hoare2 s m m' Q E\<close>: from the state \<open>s\<close> the computations \<open>m\<close> and \<open>m'\<close>
  (one method, run with two tables of the recursive calls) do the same, they do not run
  out of calls and do not crash, a result satisfies \<open>Q\<close> and a parse error that is
  thrown satisfies \<open>E\<close>.
\<close>

definition hoare2 ::
  "Parser \<Rightarrow> 'a parserM \<Rightarrow> 'a parserM \<Rightarrow> ('a \<Rightarrow> Parser \<Rightarrow> bool) \<Rightarrow> (ParseError \<Rightarrow> Parser \<Rightarrow> bool)
     \<Rightarrow> bool" where
  "hoare2 s m m' Q E =
     (m s = m' s \<and>
      (case m s of
         None \<Rightarrow> False
       | Some (Ok a s') \<Rightarrow> Q a s'
       | Some (Throw e s') \<Rightarrow> E e s'
       | Some Crash \<Rightarrow> False))"

text \<open>\<open>fine c s m m'\<close>: moreover the parser has moved on, and past at least one token
  when \<open>c\<close> holds.\<close>

definition fine :: "bool \<Rightarrow> Parser \<Rightarrow> 'a parserM \<Rightarrow> 'a parserM \<Rightarrow> bool" where
  "fine c s m m' =
     hoare2 s m m' (\<lambda>a s'. adv s s' \<and> (c \<longrightarrow> current s < current s'))
                   (\<lambda>e s'. adv s s' \<and> (c \<longrightarrow> current s < current s'))"

lemma hoare2D:
  assumes "hoare2 s m m' Q E"
  obtains out where "m s = Some out" and "m' s = Some out"
    and "case out of Ok a s' \<Rightarrow> Q a s' | Throw e s' \<Rightarrow> E e s' | Crash \<Rightarrow> False"
proof (cases "m s")
  case None
  with assms show ?thesis by (simp add: hoare2_def)
next
  case (Some out)
  with assms have eq: "m' s = Some out" by (simp add: hoare2_def)
  from assms Some
  have "case out of Ok a s' \<Rightarrow> Q a s' | Throw e s' \<Rightarrow> E e s' | Crash \<Rightarrow> False"
    by (cases out) (simp_all add: hoare2_def)
  with Some eq show ?thesis by (rule that)
qed

lemma hoare2I:
  assumes "m s = Some out" and "m' s = Some out"
    and "case out of Ok a s' \<Rightarrow> Q a s' | Throw e s' \<Rightarrow> E e s' | Crash \<Rightarrow> False"
  shows "hoare2 s m m' Q E"
  using assms unfolding hoare2_def by (cases out) simp_all

lemma hoare2_conseq:
  assumes "hoare2 s m m' Q' E'"
    and "\<And>a s'. Q' a s' \<Longrightarrow> Q a s'" and "\<And>e s'. E' e s' \<Longrightarrow> E e s'"
  shows "hoare2 s m m' Q E"
proof -
  from assms(1) obtain out where out: "m s = Some out" "m' s = Some out"
    and p: "case out of Ok a s' \<Rightarrow> Q' a s' | Throw e s' \<Rightarrow> E' e s' | Crash \<Rightarrow> False"
    by (rule hoare2D)
  from p assms(2,3)
  have "case out of Ok a s' \<Rightarrow> Q a s' | Throw e s' \<Rightarrow> E e s' | Crash \<Rightarrow> False"
    by (cases out) simp_all
  with out show ?thesis by (rule hoare2I)
qed

lemma hoare2_bnd:
  assumes "hoare2 s m m' (\<lambda>a s'. hoare2 s' (k a) (k' a) Q E) E"
  shows "hoare2 s (bnd m k) (bnd m' k') Q E"
proof -
  from assms obtain out where out: "m s = Some out" "m' s = Some out"
    and p: "case out of Ok a s' \<Rightarrow> hoare2 s' (k a) (k' a) Q E | Throw e s' \<Rightarrow> E e s'
              | Crash \<Rightarrow> False"
    by (rule hoare2D)
  show ?thesis
  proof (cases out)
    case (Ok a s')
    with p have "hoare2 s' (k a) (k' a) Q E" by simp
    then obtain out2 where "k a s' = Some out2" "k' a s' = Some out2"
      and "case out2 of Ok a s' \<Rightarrow> Q a s' | Throw e s' \<Rightarrow> E e s' | Crash \<Rightarrow> False"
      by (rule hoare2D)
    with out Ok show ?thesis by (intro hoare2I [of _ _ out2]) (simp_all add: bnd_def)
  next
    case (Throw e s')
    with p out show ?thesis by (simp add: hoare2_def bnd_def)
  next
    case Crash
    with p show ?thesis by simp
  qed
qed

lemma hoare2_ret: "Q a s \<Longrightarrow> hoare2 s (ret a) (ret a) Q E"
  by (simp add: hoare2_def ret_def)

lemma hoare2_throw: "E e s \<Longrightarrow> hoare2 s (throw e) (throw e) Q E"
  by (simp add: hoare2_def throw_def)

lemma hoare2_if:
  assumes "b \<Longrightarrow> hoare2 s m1 m1' Q E" and "\<not> b \<Longrightarrow> hoare2 s m2 m2' Q E"
  shows "hoare2 s (if b then m1 else m2) (if b then m1' else m2') Q E"
  using assms by simp

lemma hoare2_tryCatch:
  assumes "hoare2 s m m' Q (\<lambda>e s'. hoare2 s' (h e) (h' e) Q E)"
  shows "hoare2 s (tryCatch m h) (tryCatch m' h') Q E"
proof -
  from assms obtain out where out: "m s = Some out" "m' s = Some out"
    and p: "case out of Ok a s' \<Rightarrow> Q a s' | Throw e s' \<Rightarrow> hoare2 s' (h e) (h' e) Q E
              | Crash \<Rightarrow> False"
    by (rule hoare2D)
  show ?thesis
  proof (cases out)
    case (Ok a s')
    with p out show ?thesis by (simp add: hoare2_def tryCatch_def)
  next
    case (Throw e s')
    with p have "hoare2 s' (h e) (h' e) Q E" by simp
    then obtain out2 where "h e s' = Some out2" "h' e s' = Some out2"
      and "case out2 of Ok a s' \<Rightarrow> Q a s' | Throw e s' \<Rightarrow> E e s' | Crash \<Rightarrow> False"
      by (rule hoare2D)
    with out Throw show ?thesis by (intro hoare2I [of _ _ out2]) (simp_all add: tryCatch_def)
  next
    case Crash
    with p show ?thesis by simp
  qed
qed

lemma fine_bnd:
  assumes "fine c s m m'"
    and "\<And>a s'. adv s s' \<Longrightarrow> (c \<longrightarrow> current s < current s') \<Longrightarrow> hoare2 s' (k a) (k' a) Q E"
    and "\<And>e s'. adv s s' \<Longrightarrow> (c \<longrightarrow> current s < current s') \<Longrightarrow> E e s'"
  shows "hoare2 s (bnd m k) (bnd m' k') Q E"
proof (rule hoare2_bnd, rule hoare2_conseq)
  from assms(1) show "hoare2 s m m' (\<lambda>a s'. adv s s' \<and> (c \<longrightarrow> current s < current s'))
                   (\<lambda>e s'. adv s s' \<and> (c \<longrightarrow> current s < current s'))"
    by (simp add: fine_def)
qed (simp_all add: assms(2,3))

lemma fine_tail:
  assumes "fine c s m m'"
    and "\<And>a s'. adv s s' \<Longrightarrow> (c \<longrightarrow> current s < current s') \<Longrightarrow> Q a s'"
    and "\<And>e s'. adv s s' \<Longrightarrow> (c \<longrightarrow> current s < current s') \<Longrightarrow> E e s'"
  shows "hoare2 s m m' Q E"
proof (rule hoare2_conseq)
  from assms(1) show "hoare2 s m m' (\<lambda>a s'. adv s s' \<and> (c \<longrightarrow> current s < current s'))
                   (\<lambda>e s'. adv s s' \<and> (c \<longrightarrow> current s < current s'))"
    by (simp add: fine_def)
qed (simp_all add: assms(2,3))

subsection \<open>The token operations\<close>

lemma peek_wf: "wf s \<Longrightarrow> peek s = Some (Ok (Some (tokens s ! current s)) s)"
  by (simp add: wf_def peek_def readToken_def tokenAt_def)

lemma previous_wf:
  "wf s \<Longrightarrow> 0 < current s \<Longrightarrow> previous s = Some (Ok (Some (tokens s ! (current s - 1))) s)"
  by (auto simp: wf_def previous_def readToken_def tokenAt_def nat_diff_distrib')

lemma peekType_wf: "wf s \<Longrightarrow> peekType s = Some (Ok (ptype s) s)"
  by (simp add: peekType_def bnd_def peek_wf typeOf_def ret_def ptype_def)

lemma previousType_wf:
  "wf s \<Longrightarrow> 0 < current s
     \<Longrightarrow> previousType s = Some (Ok (tokenType (tokens s ! (current s - 1))) s)"
  by (simp add: previousType_def bnd_def previous_wf typeOf_def ret_def)

lemma isAtEnd_wf: "wf s \<Longrightarrow> isAtEnd s = Some (Ok (ptype s = tt_eof) s)"
  by (simp add: isAtEnd_def bnd_def ret_def peekType_wf)

lemma check_wf: "wf s \<Longrightarrow> check t s = Some (Ok (ptype s \<noteq> tt_eof \<and> ptype s = t) s)"
  by (simp add: check_def bnd_def ret_def isAtEnd_wf peekType_wf)

lemma someCheck_wf:
  "wf s \<Longrightarrow> someCheck ts s = Some (Ok (ptype s \<noteq> tt_eof \<and> ptype s \<in> set ts) s)"
  by (induction ts) (auto simp: bnd_def ret_def check_wf)

lemma advance_wf:
  assumes "wf s"
  shows "advance s =
     (if ptype s = tt_eof then Some (Ok (Some (tokens s ! (current s - 1))) s)
      else Some (Ok (Some (tokens s ! current s)) (s\<lparr>current := Suc (current s)\<rparr>)))"
proof (cases "ptype s = tt_eof")
  case True
  with assms have "0 < current s" by (simp add: wf_def)
  with assms True show ?thesis
    by (simp add: advance_def bnd_def ret_def isAtEnd_wf previous_wf)
next
  case False
  with assms have "wf (s\<lparr>current := Suc (current s)\<rparr>)" by (rule wf_step)
  from previous_wf [OF this] assms False show ?thesis
    by (simp add: advance_def bnd_def ret_def isAtEnd_wf)
qed

lemma matchToken_wf:
  "wf s \<Longrightarrow> matchToken ts s =
     (if ptype s \<noteq> tt_eof \<and> ptype s \<in> set ts
      then Some (Ok True (s\<lparr>current := Suc (current s)\<rparr>))
      else Some (Ok False s))"
  by (simp add: matchToken_def bnd_def ret_def someCheck_wf advance_wf)

lemma identifierCheck_wf:
  "wf s \<Longrightarrow> identifierCheck cfg s
     = Some (Ok (ptype s \<noteq> tt_eof \<and> isValidIdentifier cfg (ptype s)) s)"
  by (simp add: identifierCheck_def bnd_def ret_def isAtEnd_wf peekType_wf)

lemma matchIdentifier_wf:
  "wf s \<Longrightarrow> matchIdentifier cfg s =
     (if ptype s \<noteq> tt_eof \<and> isValidIdentifier cfg (ptype s)
      then Some (Ok True (s\<lparr>current := Suc (current s)\<rparr>))
      else Some (Ok False s))"
  by (simp add: matchIdentifier_def bnd_def ret_def identifierCheck_wf advance_wf)

text \<open>A read of the next token may fall just after the last token.\<close>

lemma peekNext_wf:
  assumes "wf s"
  obtains x s' where "peekNext s = Some (Ok x s')" and "adv s s'" and "current s' = current s"
proof (cases "int (current s) + 1 < int (length (tokens s))")
  case True
  with assms show ?thesis
    by (intro that [of _ s]) (simp_all add: peekNext_def bnd_def ret_def readToken_def adv_def)
next
  case False
  with assms have eq: "int (current s) + 1 = int (length (tokens s))" by (simp add: wf_def)
  with assms have "adv s (s\<lparr>strayReads := strayReads s @ [int (current s) + 1]\<rparr>)"
    by (simp add: adv_def wf_def ptype_def)
  with False show ?thesis
    by (intro that [of _ "s\<lparr>strayReads := strayReads s @ [int (current s) + 1]\<rparr>"])
      (simp_all add: peekNext_def bnd_def ret_def readToken_def)
qed

text \<open>The rules for a token operation followed by the rest of a method.\<close>

lemma hoare2_step:
  assumes "m s = Some (Ok a s1)" and "hoare2 s1 (k a) (k' a) Q E"
  shows "hoare2 s (bnd m k) (bnd m k') Q E"
  using assms by (auto simp: hoare2_def bnd_def)

lemma hoare2_step_throw:
  assumes "m s = Some (Throw e s1)" and "E e s1"
  shows "hoare2 s (bnd m k) (bnd m k') Q E"
  using assms by (simp add: hoare2_def bnd_def)

lemma wp_previous:
  assumes "wf s" and "0 < current s" and "\<And>x. hoare2 s (k x) (k' x) Q E"
  shows "hoare2 s (bnd previous k) (bnd previous k') Q E"
  using assms(1,2) assms(3) [of "Some (tokens s ! (current s - 1))"]
  by (auto simp: hoare2_def bnd_def previous_wf)

lemma wp_previous_tail:
  assumes "wf s" and "0 < current s" and "\<And>x. Q x s"
  shows "hoare2 s previous previous Q E"
  using assms by (simp add: hoare2_def previous_wf)

lemma wp_peek:
  assumes "wf s" and "\<And>x. hoare2 s (k x) (k' x) Q E"
  shows "hoare2 s (bnd peek k) (bnd peek k') Q E"
  using assms(1) assms(2) [of "Some (tokens s ! current s)"]
  by (auto simp: hoare2_def bnd_def peek_wf)

lemma wp_peekType:
  assumes "wf s" and "hoare2 s (k (ptype s)) (k' (ptype s)) Q E"
  shows "hoare2 s (bnd peekType k) (bnd peekType k') Q E"
  using assms by (auto simp: hoare2_def bnd_def peekType_wf)

lemma wp_previousType:
  assumes "wf s" and "0 < current s" and "\<And>t. hoare2 s (k t) (k' t) Q E"
  shows "hoare2 s (bnd previousType k) (bnd previousType k') Q E"
  using assms(1,2) assms(3) [of "tokenType (tokens s ! (current s - 1))"]
  by (auto simp: hoare2_def bnd_def previousType_wf)

lemma wp_isAtEnd_if:
  assumes "wf s"
    and "ptype s = tt_eof \<Longrightarrow> hoare2 s m1 m1' Q E"
    and "ptype s \<noteq> tt_eof \<Longrightarrow> hoare2 s m2 m2' Q E"
  shows "hoare2 s (bnd isAtEnd (\<lambda>b. if b then m1 else m2))
                  (bnd isAtEnd (\<lambda>b. if b then m1' else m2')) Q E"
  using assms by (auto simp: hoare2_def bnd_def isAtEnd_wf)

lemma wp_check_if:
  assumes "wf s"
    and "ptype s = t \<Longrightarrow> ptype s \<noteq> tt_eof \<Longrightarrow> hoare2 s m1 m1' Q E"
    and "\<not> (ptype s \<noteq> tt_eof \<and> ptype s = t) \<Longrightarrow> hoare2 s m2 m2' Q E"
  shows "hoare2 s (bnd (check t) (\<lambda>b. if b then m1 else m2))
                  (bnd (check t) (\<lambda>b. if b then m1' else m2')) Q E"
  using assms by (auto simp: hoare2_def bnd_def check_wf)

lemma wp_someCheck_if:
  assumes "wf s"
    and "ptype s \<in> set ts \<Longrightarrow> ptype s \<noteq> tt_eof \<Longrightarrow> hoare2 s m1 m1' Q E"
    and "\<not> (ptype s \<noteq> tt_eof \<and> ptype s \<in> set ts) \<Longrightarrow> hoare2 s m2 m2' Q E"
  shows "hoare2 s (bnd (someCheck ts) (\<lambda>b. if b then m1 else m2))
                  (bnd (someCheck ts) (\<lambda>b. if b then m1' else m2')) Q E"
  using assms by (auto simp: hoare2_def bnd_def someCheck_wf)

lemma wp_checkNext:
  assumes "wf s"
    and "\<And>s' b. adv s s' \<Longrightarrow> current s' = current s \<Longrightarrow> hoare2 s' (k b) (k' b) Q E"
  shows "hoare2 s (bnd (checkNext t) k) (bnd (checkNext t) k') Q E"
proof -
  from assms(1) obtain x s' where "peekNext s = Some (Ok x s')" "adv s s'" "current s' = current s"
    by (rule peekNext_wf)
  with assms(2) [of s' "case x of None \<Rightarrow> False | Some t' \<Rightarrow> tokenType t' = t"] show ?thesis
    by (auto simp: hoare2_def checkNext_def bnd_def ret_def)
qed

lemma wp_matchToken_if:
  assumes "wf s"
    and "\<And>s'. adv s s' \<Longrightarrow> current s < current s' \<Longrightarrow> ptype s \<in> set ts \<Longrightarrow> ptype s \<noteq> tt_eof
           \<Longrightarrow> hoare2 s' m1 m1' Q E"
    and "\<not> (ptype s \<noteq> tt_eof \<and> ptype s \<in> set ts) \<Longrightarrow> hoare2 s m2 m2' Q E"
  shows "hoare2 s (bnd (matchToken ts) (\<lambda>b. if b then m1 else m2))
                  (bnd (matchToken ts) (\<lambda>b. if b then m1' else m2')) Q E"
proof (cases "ptype s \<noteq> tt_eof \<and> ptype s \<in> set ts")
  case True
  with assms(1) have "adv s (s\<lparr>current := Suc (current s)\<rparr>)" by (simp add: adv_step)
  from assms(2) [OF this] True assms(1) show ?thesis
    by (auto simp: hoare2_def bnd_def matchToken_wf)
next
  case False
  with assms(3) assms(1) show ?thesis
    by (auto simp: hoare2_def bnd_def matchToken_wf)
qed

text \<open>\<open>this.matchToken(...) ? this.previous() : undefined\<close>\<close>

lemma wp_matchToken_previous:
  assumes "wf s"
    and "\<And>s' x. adv s s' \<Longrightarrow> current s < current s' \<Longrightarrow> ptype s \<in> set ts
           \<Longrightarrow> ptype s \<noteq> tt_eof \<Longrightarrow> hoare2 s' (k x) (k' x) Q E"
    and "\<not> (ptype s \<noteq> tt_eof \<and> ptype s \<in> set ts) \<Longrightarrow> hoare2 s (k None) (k' None) Q E"
  shows "hoare2 s (bnd (matchToken ts) (\<lambda>b. bnd (if b then previous else ret None) k))
                  (bnd (matchToken ts) (\<lambda>b. bnd (if b then previous else ret None) k')) Q E"
proof (cases "ptype s \<noteq> tt_eof \<and> ptype s \<in> set ts")
  case True
  with assms(1) have a: "adv s (s\<lparr>current := Suc (current s)\<rparr>)" by (simp add: adv_step)
  then have w: "wf (s\<lparr>current := Suc (current s)\<rparr>)" by (simp add: adv_def)
  from assms(2) [OF a, of "Some (tokens s ! current s)"] True assms(1) previous_wf [OF w]
  show ?thesis
    by (auto simp: hoare2_def bnd_def matchToken_wf)
next
  case False
  with assms(3) assms(1) show ?thesis
    by (auto simp: hoare2_def bnd_def ret_def matchToken_wf)
qed

lemma wp_matchToken:
  assumes "wf s"
    and "\<And>s' b. adv s s' \<Longrightarrow> (b \<longrightarrow> current s < current s') \<Longrightarrow> hoare2 s' (k b) (k' b) Q E"
  shows "hoare2 s (bnd (matchToken ts) k) (bnd (matchToken ts) k') Q E"
proof (cases "ptype s \<noteq> tt_eof \<and> ptype s \<in> set ts")
  case True
  with assms(1) have "adv s (s\<lparr>current := Suc (current s)\<rparr>)" by (simp add: adv_step)
  from assms(2) [OF this, of True] True assms(1) show ?thesis
    by (auto simp: hoare2_def bnd_def matchToken_wf)
next
  case False
  with assms(2) [OF adv_refl [OF assms(1)], of False] assms(1) show ?thesis
    by (auto simp: hoare2_def bnd_def matchToken_wf)
qed

lemma wp_matchIdentifier_if:
  assumes "wf s"
    and "\<And>s'. adv s s' \<Longrightarrow> current s < current s' \<Longrightarrow> hoare2 s' m1 m1' Q E"
    and "hoare2 s m2 m2' Q E"
  shows "hoare2 s (bnd (matchIdentifier cfg) (\<lambda>b. if b then m1 else m2))
                  (bnd (matchIdentifier cfg) (\<lambda>b. if b then m1' else m2')) Q E"
proof (cases "ptype s \<noteq> tt_eof \<and> isValidIdentifier cfg (ptype s)")
  case True
  with assms(1) have "adv s (s\<lparr>current := Suc (current s)\<rparr>)" by (simp add: adv_step)
  from assms(2) [OF this] True assms(1) show ?thesis
    by (auto simp: hoare2_def bnd_def matchIdentifier_wf)
next
  case False
  with assms(3) assms(1) show ?thesis
    by (auto simp: hoare2_def bnd_def matchIdentifier_wf)
qed

lemma wf_started: "wf s \<Longrightarrow> ptype s = tt_eof \<Longrightarrow> 0 < current s"
  by (auto simp: wf_def)

lemma advance_cases:
  assumes "wf s"
  obtains x s' where "advance s = Some (Ok x s')" and "adv s s'"
    and "ptype s \<noteq> tt_eof \<longrightarrow> current s < current s'" and "0 < current s'"
proof (cases "ptype s = tt_eof")
  case True
  with assms show ?thesis
    by (intro that [of _ s]) (simp_all add: advance_wf adv_refl wf_started)
next
  case False
  with assms have "adv s (s\<lparr>current := Suc (current s)\<rparr>)" by (simp add: adv_step)
  with assms False show ?thesis
    by (intro that [of _ "s\<lparr>current := Suc (current s)\<rparr>"]) (simp_all add: advance_wf)
qed

lemma wp_advance:
  assumes "wf s"
    and "\<And>s' x. adv s s' \<Longrightarrow> (ptype s \<noteq> tt_eof \<longrightarrow> current s < current s')
           \<Longrightarrow> 0 < current s' \<Longrightarrow> hoare2 s' (k x) (k' x) Q E"
  shows "hoare2 s (bnd advance k) (bnd advance k') Q E"
proof -
  from assms(1) obtain x s' where "advance s = Some (Ok x s')" and "adv s s'"
    and "ptype s \<noteq> tt_eof \<longrightarrow> current s < current s'" and "0 < current s'"
    by (rule advance_cases)
  with assms(2) [of s' x] show ?thesis by (auto simp: hoare2_def bnd_def)
qed

lemma wp_advance_tail:
  assumes "wf s"
    and "\<And>s' x. adv s s' \<Longrightarrow> (ptype s \<noteq> tt_eof \<longrightarrow> current s < current s')
           \<Longrightarrow> 0 < current s' \<Longrightarrow> Q x s'"
  shows "hoare2 s advance advance Q E"
proof -
  from assms(1) obtain x s' where "advance s = Some (Ok x s')" and "adv s s'"
    and "ptype s \<noteq> tt_eof \<longrightarrow> current s < current s'" and "0 < current s'"
    by (rule advance_cases)
  with assms(2) [of s' x] show ?thesis by (auto simp: hoare2_def)
qed

lemma wp_checkNext_tail:
  assumes "wf s"
    and "\<And>s' b. adv s s' \<Longrightarrow> current s' = current s \<Longrightarrow> Q b s'"
  shows "hoare2 s (checkNext t) (checkNext t) Q E"
proof -
  from assms(1) obtain x s' where "peekNext s = Some (Ok x s')" "adv s s'" "current s' = current s"
    by (rule peekNext_wf)
  with assms(2) [of s' "case x of None \<Rightarrow> False | Some t' \<Rightarrow> tokenType t' = t"] show ?thesis
    by (auto simp: hoare2_def checkNext_def bnd_def ret_def)
qed

lemma wp_matchIdentifier:
  assumes "wf s"
    and "\<And>s' b. adv s s' \<Longrightarrow> (b \<longrightarrow> current s < current s') \<Longrightarrow> hoare2 s' (k b) (k' b) Q E"
  shows "hoare2 s (bnd (matchIdentifier cfg) k) (bnd (matchIdentifier cfg) k') Q E"
proof (cases "ptype s \<noteq> tt_eof \<and> isValidIdentifier cfg (ptype s)")
  case True
  with assms(1) have "adv s (s\<lparr>current := Suc (current s)\<rparr>)" by (simp add: adv_step)
  from assms(2) [OF this, of True] True assms(1) show ?thesis
    by (auto simp: hoare2_def bnd_def matchIdentifier_wf)
next
  case False
  with assms(2) [OF adv_refl [OF assms(1)], of False] assms(1) show ?thesis
    by (auto simp: hoare2_def bnd_def matchIdentifier_wf)
qed

lemma wp_getCurrent:
  assumes "hoare2 s (k (current s)) (k' (current s)) Q E"
  shows "hoare2 s (bnd getCurrent k) (bnd getCurrent k') Q E"
  using assms by (auto simp: hoare2_def bnd_def getCurrent_def)

lemma wp_tokensSlice:
  assumes "hoare2 s (k (take (current s - start') (drop start' (tokens s))))
             (k' (take (current s - start') (drop start' (tokens s)))) Q E"
  shows "hoare2 s (bnd (tokensSlice start') k) (bnd (tokensSlice start') k') Q E"
  using assms by (auto simp: hoare2_def bnd_def tokensSlice_def)

lemma failedInst_error_unknown [simp]: "failedInst (error cfg p None msg extraInfo) = None"
  by (simp add: error_def)

lemma consumeTokenThrow_wf:
  assumes "wf s" and "0 < current s"
  shows "consumeTokenThrow cfg msg failed ts s =
     (if ptype s \<noteq> tt_eof \<and> ptype s \<in> set ts
      then Some (Ok (Some (tokens s ! current s)) (s\<lparr>current := Suc (current s)\<rparr>))
      else Some (Throw (error cfg (Some (tokens s ! (current s - 1))) (Some failed) msg []) s))"
proof (cases "ptype s \<noteq> tt_eof \<and> ptype s \<in> set ts")
  case True
  with assms(1) have "wf (s\<lparr>current := Suc (current s)\<rparr>)" by (simp add: wf_step)
  from previous_wf [OF this] True assms(1) show ?thesis
    by (simp add: consumeTokenThrow_def bnd_def matchToken_wf)
next
  case False
  with assms show ?thesis
    by (auto simp: consumeTokenThrow_def bnd_def matchToken_wf previous_wf throw_def)
qed

lemma consumeIdentifierThrow_wf:
  assumes "wf s" and "0 < current s"
  shows "consumeIdentifierThrow cfg msg failed s =
     (if ptype s \<noteq> tt_eof \<and> isValidIdentifier cfg (ptype s)
      then Some (Ok (Some (tokens s ! current s)) (s\<lparr>current := Suc (current s)\<rparr>))
      else Some (Throw (error cfg (Some (tokens s ! (current s - 1))) (Some failed) msg []) s))"
proof (cases "ptype s \<noteq> tt_eof \<and> isValidIdentifier cfg (ptype s)")
  case True
  with assms(1) have "wf (s\<lparr>current := Suc (current s)\<rparr>)" by (simp add: wf_step)
  from previous_wf [OF this] True assms(1) show ?thesis
    by (simp add: consumeIdentifierThrow_def bnd_def matchIdentifier_wf)
next
  case False
  with assms show ?thesis
    by (auto simp: consumeIdentifierThrow_def bnd_def matchIdentifier_wf previous_wf throw_def)
qed

lemma consumeTokenReturn_wf:
  assumes "wf s" and "0 < current s"
  shows "consumeTokenReturn cfg msg failed ts s =
     (if ptype s \<noteq> tt_eof \<and> ptype s \<in> set ts
      then Some (Ok (Inr (Some (tokens s ! current s))) (s\<lparr>current := Suc (current s)\<rparr>))
      else Some (Ok (Inl (error cfg (Some (tokens s ! (current s - 1))) (Some failed) msg [])) s))"
proof (cases "ptype s \<noteq> tt_eof \<and> ptype s \<in> set ts")
  case True
  with assms(1) have "wf (s\<lparr>current := Suc (current s)\<rparr>)" by (simp add: wf_step)
  from previous_wf [OF this] True assms(1) show ?thesis
    by (simp add: consumeTokenReturn_def bnd_def ret_def matchToken_wf)
next
  case False
  with assms show ?thesis
    by (auto simp: consumeTokenReturn_def bnd_def ret_def matchToken_wf previous_wf)
qed

lemma wp_consumeTokenThrow:
  assumes "wf s" and "0 < current s"
    and "\<And>s' x. adv s s' \<Longrightarrow> current s < current s' \<Longrightarrow> hoare2 s' (k x) (k' x) Q E"
    and "\<And>e. E e s"
  shows "hoare2 s (bnd (consumeTokenThrow cfg msg failed ts) k)
                  (bnd (consumeTokenThrow cfg msg failed ts) k') Q E"
proof (cases "ptype s \<noteq> tt_eof \<and> ptype s \<in> set ts")
  case True
  with assms(1) have "adv s (s\<lparr>current := Suc (current s)\<rparr>)" by (simp add: adv_step)
  from assms(3) [OF this, of "Some (tokens s ! current s)"] True assms(1,2) show ?thesis
    by (auto simp: hoare2_def bnd_def consumeTokenThrow_wf)
next
  case False
  with assms(1,2) assms(4) [of "error cfg (Some (tokens s ! (current s - 1))) (Some failed) msg []"] show ?thesis
    by (auto simp: hoare2_def bnd_def consumeTokenThrow_wf)
qed

lemma wp_terminal:
  assumes "wf s" and "0 < current s"
    and "\<And>s' x. adv s s' \<Longrightarrow> current s < current s' \<Longrightarrow> hoare2 s' (k x) (k' x) Q E"
    and "\<And>e. E e s"
  shows "hoare2 s (bnd (terminal cfg failed) k) (bnd (terminal cfg failed) k') Q E"
  unfolding terminal_def using assms by (rule wp_consumeTokenThrow)

lemma wp_consumeIdentifierThrow:
  assumes "wf s" and "0 < current s"
    and "\<And>s' x. adv s s' \<Longrightarrow> current s < current s' \<Longrightarrow> hoare2 s' (k x) (k' x) Q E"
    and "\<And>e. E e s"
  shows "hoare2 s (bnd (consumeIdentifierThrow cfg msg failed) k)
                  (bnd (consumeIdentifierThrow cfg msg failed) k') Q E"
proof (cases "ptype s \<noteq> tt_eof \<and> isValidIdentifier cfg (ptype s)")
  case True
  with assms(1) have "adv s (s\<lparr>current := Suc (current s)\<rparr>)" by (simp add: adv_step)
  from assms(3) [OF this, of "Some (tokens s ! current s)"] True assms(1,2) show ?thesis
    by (auto simp: hoare2_def bnd_def consumeIdentifierThrow_wf)
next
  case False
  with assms(1,2) assms(4) [of "error cfg (Some (tokens s ! (current s - 1))) (Some failed) msg []"] show ?thesis
    by (auto simp: hoare2_def bnd_def consumeIdentifierThrow_wf)
qed

lemma wp_consumeTokenReturn:
  assumes "wf s" and "0 < current s"
    and "\<And>s' x. adv s s' \<Longrightarrow> hoare2 s' (k x) (k' x) Q E"
  shows "hoare2 s (bnd (consumeTokenReturn cfg msg failed ts) k)
                  (bnd (consumeTokenReturn cfg msg failed ts) k') Q E"
proof (cases "ptype s \<noteq> tt_eof \<and> ptype s \<in> set ts")
  case True
  with assms(1) have "adv s (s\<lparr>current := Suc (current s)\<rparr>)" by (simp add: adv_step)
  from assms(3) [OF this, of "Inr (Some (tokens s ! current s))"] True assms(1,2) show ?thesis
    by (auto simp: hoare2_def bnd_def consumeTokenReturn_wf)
next
  case False
  with assms(3) [OF adv_refl [OF assms(1)], of "Inl (error cfg (Some (tokens s ! (current s - 1))) (Some failed) msg [])"] assms(1,2) show ?thesis
    by (auto simp: hoare2_def bnd_def consumeTokenReturn_wf)
qed

lemma wp_addRunInst:
  assumes "wf s" and "\<And>s'. adv s s' \<Longrightarrow> current s' = current s \<Longrightarrow> Q (inst, errors) s'"
  shows "hoare2 s (addRunInst inst errors) (addRunInst inst errors) Q E"
proof -
  have "adv s (s\<lparr>runInsts := runInsts s @ [inst]\<rparr>)"
    using assms(1) by (simp add: adv_def wf_def ptype_def)
  from assms(2) [OF this] show ?thesis by (simp add: hoare2_def addRunInst_def)
qed

lemma hoare2_sum_case:
  assumes "\<And>e. hoare2 s (f e) (f' e) Q E" and "\<And>t. hoare2 s (g t) (g' t) Q E"
  shows "hoare2 s (case x of Inl e \<Rightarrow> f e | Inr t \<Rightarrow> g t)
                  (case x of Inl e \<Rightarrow> f' e | Inr t \<Rightarrow> g' t) Q E"
  using assms by (cases x) simp_all

lemma hoare2_option_case:
  assumes "hoare2 s m m' Q E" and "\<And>y. hoare2 s (f y) (f' y) Q E"
  shows "hoare2 s (case x of None \<Rightarrow> m | Some y \<Rightarrow> f y)
                  (case x of None \<Rightarrow> m' | Some y \<Rightarrow> f' y) Q E"
  using assms by (cases x) simp_all

subsection \<open>The measure of a call\<close>

text \<open>
  A call through the table is measured by the tokens that are left and by the rank of
  its name: a method reaches a name of lower rank at once, and any name after it has
  consumed a token.
\<close>

fun rank :: "nonterm \<Rightarrow> nat" where
  "rank (SuffixTermLoop _ _) = 1"
| "rank (SuffixLoop _) = 2"
| "rank (FactorLoop _) = 3"
| "rank NT_unary = 4"
| "rank (BinaryLoop L_multiplication _) = 5"
| "rank (BinaryLoop L_addition _) = 6"
| "rank (BinaryLoop L_comparison _) = 7"
| "rank (BinaryLoop L_equality _) = 8"
| "rank (BinaryLoop L_and _) = 9"
| "rank (BinaryLoop L_or _) = 10"
| "rank (NT_expression _) = 11"
| "rank SynchronizeLoop = 12"
| "rank NT_declaration = 13"
| "rank (ArgumentsLoop _ _) = 14"
| "rank (NormalParametersLoop _) = 14"
| "rank (DefaultedParametersLoop _ _) = 14"
| "rank (DeclarationsLoop _ _) = 14"
| "rank (ParseLoop _ _) = 14"

text \<open>What a call through the table needs, and what it gives.\<close>

definition knotPre :: "nonterm \<Rightarrow> Parser \<Rightarrow> bool" where
  "knotPre nt s =
     (case nt of
        SynchronizeLoop \<Rightarrow> 0 < current s
      | NormalParametersLoop _ \<Rightarrow> 0 < current s
      | DefaultedParametersLoop _ _ \<Rightarrow> 0 < current s
      | _ \<Rightarrow> True)"

definition knotQ :: "nonterm \<Rightarrow> Parser \<Rightarrow> NodeResult \<Rightarrow> Parser \<Rightarrow> bool" where
  "knotQ nt s a s' =
     (adv s s' \<and> (nt = NT_declaration \<longrightarrow> ptype s \<noteq> tt_eof \<longrightarrow> current s < current s'))"

definition knotE :: "nonterm \<Rightarrow> Parser \<Rightarrow> ParseError \<Rightarrow> Parser \<Rightarrow> bool" where
  "knotE nt s e s' =
     (adv s s' \<and> nt \<noteq> NT_declaration \<and> nt \<noteq> SynchronizeLoop \<and> (\<forall>is es. nt \<noteq> ParseLoop is es))"

definition rec_ok :: "nat \<Rightarrow> rec_table \<Rightarrow> rec_table \<Rightarrow> bool" where
  "rec_ok M rec rec' =
     (\<forall>nt s. wf s \<longrightarrow> knotPre nt s
        \<longrightarrow> 16 * length (tokens s) + rank nt < M + 16 * current s
        \<longrightarrow> hoare2 s (rec nt) (rec' nt) (knotQ nt s) (knotE nt s))"

lemma wp_rec:
  assumes "rec_ok M rec rec'" and "wf s" and "knotPre nt s"
    and "16 * length (tokens s) + rank nt < M + 16 * current s"
    and "\<And>a s'. knotQ nt s a s' \<Longrightarrow> hoare2 s' (k a) (k' a) Q E"
    and "\<And>e s'. knotE nt s e s' \<Longrightarrow> E e s'"
  shows "hoare2 s (bnd (rec nt) k) (bnd (rec' nt) k') Q E"
proof -
  from assms(1-4) have "hoare2 s (rec nt) (rec' nt) (knotQ nt s) (knotE nt s)"
    by (simp add: rec_ok_def)
  then show ?thesis
    by (intro hoare2_bnd) (erule hoare2_conseq, auto intro: assms(5,6))
qed

lemma wp_rec_tail:
  assumes "rec_ok M rec rec'" and "wf s" and "knotPre nt s"
    and "16 * length (tokens s) + rank nt < M + 16 * current s"
    and "\<And>a s'. knotQ nt s a s' \<Longrightarrow> Q a s'"
    and "\<And>e s'. knotE nt s e s' \<Longrightarrow> E e s'"
  shows "hoare2 s (rec nt) (rec' nt) Q E"
proof -
  from assms(1-4) have "hoare2 s (rec nt) (rec' nt) (knotQ nt s) (knotE nt s)"
    by (simp add: rec_ok_def)
  then show ?thesis
    by (rule hoare2_conseq) (auto intro: assms(5,6))
qed

lemmas wp_ops =
  wp_matchToken_if wp_matchToken_previous wp_matchIdentifier_if wp_isAtEnd_if wp_check_if
  wp_someCheck_if wp_previous wp_peek wp_peekType wp_previousType wp_checkNext wp_advance
  wp_matchToken wp_matchIdentifier wp_consumeTokenThrow wp_terminal wp_consumeIdentifierThrow
  wp_consumeTokenReturn wp_getCurrent wp_tokensSlice wp_addRunInst wp_previous_tail
  wp_advance_tail wp_checkNext_tail hoare2_ret hoare2_throw hoare2_tryCatch
  hoare2_if hoare2_sum_case hoare2_option_case

lemmas prog_defs = adv_def knotQ_def knotE_def knotPre_def
subsection \<open>The methods for expressions\<close>

text \<open>The current token starts an atom: \<open>atom\<close> consumes it.\<close>

definition startsAtom :: "ParserConfig \<Rightarrow> Parser \<Rightarrow> bool" where
  "startsAtom cfg s =
     (ptype s \<noteq> tt_eof \<and>
      (ptype s \<in> set [tt_false, tt_true, tt_fileIdentifier, tt_string, tt_integer, tt_double,
                       tt_bracketOpen]
       \<or> isValidIdentifier cfg (ptype s)))"

lemma arrayIndex_ok:
  assumes "wf s" and "0 < current s"
  shows "fine False s (arrayIndex cfg array isTrailer) (arrayIndex cfg array isTrailer)"
  unfolding arrayIndex_def fine_def
  apply (intro wp_ops hoare2_bnd)
  using assms wf_bound [OF assms(1)] apply (simp_all add: prog_defs)
  apply (arith+)?
  done

lemma arrayBracket_ok:
  assumes IH: "rec_ok M rec rec'" and "wf s" and "0 < current s"
    and "16 * length (tokens s) + 11 < M + 16 * current s"
  shows "fine False s (arrayBracket cfg rec array isTrailer) (arrayBracket cfg rec' array isTrailer)"
  unfolding arrayBracket_def fine_def
  apply (intro wp_ops wp_rec_tail [OF IH] hoare2_bnd)
  using assms(2-) wf_bound [OF assms(2)] apply (simp_all add: prog_defs)
  apply (arith+)?
  done

lemma arguments_ok:
  assumes IH: "rec_ok M rec rec'" and "wf s"
    and "16 * length (tokens s) + 14 < M + 16 * current s"
  shows "fine False s (arguments rec) (arguments rec')"
  unfolding arguments_def fine_def
  apply (intro wp_ops wp_rec_tail [OF IH] hoare2_bnd)
  using assms(2-) wf_bound [OF assms(2)] apply (simp_all add: prog_defs)
  apply (arith+)?
  done

lemma argumentsLoop_ok:
  assumes IH: "rec_ok M rec rec'" and "wf s"
    and "16 * length (tokens s) + 14 \<le> M + 16 * current s"
  shows "fine False s (argumentsLoop rec args errors) (argumentsLoop rec' args errors)"
  unfolding argumentsLoop_def fine_def
  apply (intro wp_ops wp_rec_tail [OF IH] hoare2_bnd)
  using assms(2-) wf_bound [OF assms(2)] apply (simp_all add: prog_defs)
  apply (arith+)?
  done

lemma functionTrailer_ok:
  assumes IH: "rec_ok M rec rec'" and "wf s" and "0 < current s"
    and "16 * length (tokens s) + 14 < M + 16 * current s"
  shows "fine False s (functionTrailer cfg rec callee isTrailer)
                      (functionTrailer cfg rec' callee isTrailer)"
  unfolding functionTrailer_def fine_def
  apply (intro wp_ops fine_tail [OF arguments_ok [OF IH]] hoare2_bnd)
  using assms(2-) wf_bound [OF assms(2)] apply (simp_all add: prog_defs)
  apply (arith+)?
  done

lemma atom_ok:
  assumes IH: "rec_ok M rec rec'" and "wf s"
    and "16 * length (tokens s) \<le> M + 16 * current s"
  shows "fine (startsAtom cfg s) s
           (atom cfg rec isTrailer) (atom cfg rec' isTrailer)"
  unfolding atom_def fine_def
  apply (intro wp_ops wp_rec_tail [OF IH] hoare2_bnd)
  using assms(2-) wf_bound [OF assms(2)] apply (simp_all add: prog_defs startsAtom_def)
  apply (arith+)?
  done

lemma suffixTerm_ok:
  assumes IH: "rec_ok M rec rec'" and "wf s"
    and "16 * length (tokens s) + 1 < M + 16 * current s"
  shows "fine (startsAtom cfg s) s
           (suffixTerm cfg rec isTrailer) (suffixTerm cfg rec' isTrailer)"
  unfolding suffixTerm_def fine_def
  apply (intro wp_ops fine_tail [OF atom_ok [OF IH]] wp_rec_tail [OF IH] hoare2_bnd)
  using assms(2-) wf_bound [OF assms(2)] apply (simp_all add: prog_defs)
  apply (arith+)?
  done

lemma suffixTermLoop_ok:
  assumes IH: "rec_ok M rec rec'" and "wf s"
    and "16 * length (tokens s) \<le> M + 16 * current s"
  shows "fine False s (suffixTermLoop cfg rec isTrailer expr)
                      (suffixTermLoop cfg rec' isTrailer expr)"
  unfolding suffixTermLoop_def fine_def
  apply (intro wp_ops fine_tail [OF arrayIndex_ok] fine_tail [OF arrayBracket_ok [OF IH]] fine_tail [OF functionTrailer_ok [OF IH]] wp_rec_tail [OF IH] hoare2_bnd)
  using assms(2-) wf_bound [OF assms(2)] apply (simp_all add: prog_defs)
  apply (arith+)?
  done

lemma suffixTrailer_ok:
  assumes IH: "rec_ok M rec rec'" and "wf s" and "0 < current s"
    and "16 * length (tokens s) + 1 < M + 16 * current s"
  shows "fine False s (suffixTrailer cfg rec suffix') (suffixTrailer cfg rec' suffix')"
  unfolding suffixTrailer_def fine_def
  apply (intro wp_ops fine_tail [OF suffixTerm_ok [OF IH]] hoare2_bnd)
  using assms(2-) wf_bound [OF assms(2)] apply (simp_all add: prog_defs)
  apply (arith+)?
  done

lemma suffix_ok:
  assumes IH: "rec_ok M rec rec'" and "wf s"
    and "16 * length (tokens s) + 2 < M + 16 * current s"
  shows "fine (startsAtom cfg s) s
           (suffix cfg rec) (suffix cfg rec')"
  unfolding suffix_def fine_def
  apply (intro wp_ops fine_tail [OF suffixTerm_ok [OF IH]] wp_rec_tail [OF IH] hoare2_bnd)
  using assms(2-) wf_bound [OF assms(2)] apply (simp_all add: prog_defs)
  apply (arith+)?
  done

lemma suffixLoop_ok:
  assumes IH: "rec_ok M rec rec'" and "wf s"
    and "16 * length (tokens s) \<le> M + 16 * current s"
  shows "fine False s (suffixLoop cfg rec expr) (suffixLoop cfg rec' expr)"
  unfolding suffixLoop_def fine_def
  apply (intro wp_ops fine_tail [OF suffixTrailer_ok [OF IH]] wp_rec_tail [OF IH] hoare2_bnd)
  using assms(2-) wf_bound [OF assms(2)] apply (simp_all add: prog_defs)
  apply (arith+)?
  done

lemma suffixCatch_ok:
  assumes IH: "rec_ok M rec rec'" and "wf s"
    and "16 * length (tokens s) + 2 < M + 16 * current s"
  shows "fine (startsAtom cfg s) s
           (suffixCatch cfg rec inst) (suffixCatch cfg rec' inst)"
  unfolding suffixCatch_def fine_def
  apply (intro wp_ops fine_tail [OF suffix_ok [OF IH]] hoare2_bnd)
  using assms(2-) wf_bound [OF assms(2)] apply (simp_all add: prog_defs)
  apply (arith+)?
  done

lemma factor_ok:
  assumes IH: "rec_ok M rec rec'" and "wf s"
    and "16 * length (tokens s) + 3 < M + 16 * current s"
  shows "fine False s (factor cfg rec) (factor cfg rec')"
  unfolding factor_def fine_def
  apply (intro wp_ops fine_tail [OF suffix_ok [OF IH]] wp_rec_tail [OF IH] hoare2_bnd)
  using assms(2-) wf_bound [OF assms(2)] apply (simp_all add: prog_defs)
  apply (arith+)?
  done

lemma factorLoop_ok:
  assumes IH: "rec_ok M rec rec'" and "wf s"
    and "16 * length (tokens s) \<le> M + 16 * current s"
  shows "fine False s (factorLoop cfg rec expr) (factorLoop cfg rec' expr)"
  unfolding factorLoop_def fine_def
  apply (intro wp_ops fine_tail [OF suffix_ok [OF IH]] wp_rec_tail [OF IH] hoare2_bnd)
  using assms(2-) wf_bound [OF assms(2)] apply (simp_all add: prog_defs)
  apply (arith+)?
  done

lemma unary_ok:
  assumes IH: "rec_ok M rec rec'" and "wf s"
    and "16 * length (tokens s) + 3 < M + 16 * current s"
  shows "fine False s (unary cfg rec) (unary cfg rec')"
  unfolding unary_def fine_def
  apply (intro wp_ops fine_tail [OF factor_ok [OF IH]] wp_rec_tail [OF IH] hoare2_bnd)
  using assms(2-) wf_bound [OF assms(2)] apply (simp_all add: prog_defs)
  apply (arith+)?
  done

lemma binaryExpression_ok:
  assumes IH: "rec_ok M rec rec'" and "wf s"
    and "16 * length (tokens s) + rank (BinaryLoop level (Undefined, [])) < M + 16 * current s"
    and "fine False s recurse recurse'"
  shows "fine False s (binaryExpression rec level recurse) (binaryExpression rec' level recurse')"
  unfolding binaryExpression_def fine_def
  apply (intro wp_ops fine_tail [OF assms(4)] wp_rec_tail [OF IH] hoare2_bnd)
  using assms(2-) wf_bound [OF assms(2)] apply (cases level; simp add: prog_defs)+
  done

lemma multiplication_ok:
  assumes IH: "rec_ok M rec rec'" and "wf s"
    and "16 * length (tokens s) + 5 < M + 16 * current s"
  shows "fine False s (multiplication cfg rec) (multiplication cfg rec')"
  unfolding multiplication_def using assms
  by (intro binaryExpression_ok unary_ok) (simp_all, arith+)

lemma addition_ok:
  assumes IH: "rec_ok M rec rec'" and "wf s"
    and "16 * length (tokens s) + 6 < M + 16 * current s"
  shows "fine False s (addition cfg rec) (addition cfg rec')"
  unfolding addition_def using assms
  by (intro binaryExpression_ok multiplication_ok) (simp_all, arith+)

lemma comparison_ok:
  assumes IH: "rec_ok M rec rec'" and "wf s"
    and "16 * length (tokens s) + 7 < M + 16 * current s"
  shows "fine False s (comparison cfg rec) (comparison cfg rec')"
  unfolding comparison_def using assms
  by (intro binaryExpression_ok addition_ok) (simp_all, arith+)

lemma equality_ok:
  assumes IH: "rec_ok M rec rec'" and "wf s"
    and "16 * length (tokens s) + 8 < M + 16 * current s"
  shows "fine False s (equality cfg rec) (equality cfg rec')"
  unfolding equality_def using assms
  by (intro binaryExpression_ok comparison_ok) (simp_all, arith+)

lemma andExpr_ok:
  assumes IH: "rec_ok M rec rec'" and "wf s"
    and "16 * length (tokens s) + 9 < M + 16 * current s"
  shows "fine False s (andExpr cfg rec) (andExpr cfg rec')"
  unfolding andExpr_def using assms
  by (intro binaryExpression_ok equality_ok) (simp_all, arith+)

lemma orExpr_ok:
  assumes IH: "rec_ok M rec rec'" and "wf s"
    and "16 * length (tokens s) + 10 < M + 16 * current s"
  shows "fine False s (orExpr cfg rec) (orExpr cfg rec')"
  unfolding orExpr_def using assms
  by (intro binaryExpression_ok andExpr_ok) (simp_all, arith+)

lemma binaryRecurse_ok:
  assumes IH: "rec_ok M rec rec'" and "wf s"
    and "16 * length (tokens s) + 9 < M + 16 * current s"
  shows "fine False s (binaryRecurse cfg rec level) (binaryRecurse cfg rec' level)"
  using assms
  by (cases level) (simp_all add: andExpr_ok equality_ok comparison_ok addition_ok
      multiplication_ok unary_ok)

lemma binaryLoop_ok:
  assumes IH: "rec_ok M rec rec'" and "wf s"
    and "16 * length (tokens s) \<le> M + 16 * current s"
  shows "fine False s
           (binaryLoop rec level (binaryRecurse cfg rec level) (binaryTypes level) expr)
           (binaryLoop rec' level (binaryRecurse cfg rec' level) (binaryTypes level) expr)"
  unfolding binaryLoop_def fine_def
  apply (intro wp_ops fine_tail [OF binaryRecurse_ok [OF IH]] wp_rec_tail [OF IH] hoare2_bnd)
  using assms(2-) wf_bound [OF assms(2)] apply (cases level; simp add: prog_defs)+
  done

lemma anonymousFunction_ok:
  assumes IH: "rec_ok M rec rec'" and "wf s" and "0 < current s"
    and "16 * length (tokens s) + 14 < M + 16 * current s"
  shows "fine False s (anonymousFunction cfg rec) (anonymousFunction cfg rec')"
  unfolding anonymousFunction_def fine_def
  apply (intro wp_ops wp_rec_tail [OF IH] hoare2_bnd)
  using assms(2-) wf_bound [OF assms(2)] apply (simp_all add: prog_defs)
  apply (arith+)?
  done

lemma expression_ok:
  assumes IH: "rec_ok M rec rec'" and "wf s"
    and "16 * length (tokens s) + 10 < M + 16 * current s"
  shows "fine False s (expression cfg rec inst) (expression cfg rec' inst)"
  unfolding expression_def fine_def
  apply (intro wp_ops fine_tail [OF anonymousFunction_ok [OF IH]] fine_tail [OF orExpr_ok [OF IH]] hoare2_bnd)
  using assms(2-) wf_bound [OF assms(2)] apply (simp_all add: prog_defs)
  apply (arith+)?
  done

lemma declarationsLoop_ok:
  assumes IH: "rec_ok M rec rec'" and "wf s"
    and "16 * length (tokens s) + 13 < M + 16 * current s"
  shows "fine False s (declarationsLoop rec declarations errs)
                      (declarationsLoop rec' declarations errs)"
  unfolding declarationsLoop_def fine_def
  apply (intro wp_ops wp_rec_tail [OF IH] hoare2_bnd)
  using assms(2-) wf_bound [OF assms(2)] apply (simp_all add: prog_defs)
  apply (arith+)?
  done
subsection \<open>The methods for declarations\<close>

lemma instructionBlock_ok:
  assumes IH: "rec_ok M rec rec'" and "wf s" and "0 < current s"
    and "16 * length (tokens s) + 14 < M + 16 * current s"
  shows "fine False s (instructionBlock cfg rec) (instructionBlock cfg rec')"
  unfolding instructionBlock_def fine_def
  apply (intro wp_ops wp_rec_tail [OF IH] hoare2_bnd)
  using assms(2-) wf_bound [OF assms(2)] apply (simp_all add: prog_defs)
  apply (arith+)?
  done

lemma declareFunction_parser_ok:
  assumes IH: "rec_ok M rec rec'" and "wf s" and "0 < current s"
    and "16 * length (tokens s) + 16 \<le> M + 16 * current s"
  shows "fine False s (declareFunction_parser cfg rec scope') (declareFunction_parser cfg rec' scope')"
  unfolding declareFunction_parser_def fine_def
  apply (intro wp_ops fine_tail [OF instructionBlock_ok [OF IH]] hoare2_bnd)
  using assms(2-) wf_bound [OF assms(2)] apply (simp_all add: prog_defs)
  apply (arith+)?
  done

lemma normalParametersLoop_ok:
  assumes IH: "rec_ok M rec rec'" and "wf s" and "0 < current s"
    and "16 * length (tokens s) \<le> M + 16 * current s"
  shows "fine False s (normalParametersLoop cfg rec parameters)
                      (normalParametersLoop cfg rec' parameters)"
  unfolding normalParametersLoop_def fine_def
  apply (intro wp_ops wp_rec_tail [OF IH] hoare2_bnd)
  using assms(2-) wf_bound [OF assms(2)] apply (simp_all add: prog_defs)
  apply (arith+)?
  done

lemma defaultedParametersLoop_ok:
  assumes IH: "rec_ok M rec rec'" and "wf s" and "0 < current s"
    and "16 * length (tokens s) \<le> M + 16 * current s"
  shows "fine False s (defaultedParametersLoop cfg rec parameters errors)
                      (defaultedParametersLoop cfg rec' parameters errors)"
  unfolding defaultedParametersLoop_def fine_def
  apply (intro wp_ops fine_tail [OF expression_ok [OF IH]] wp_rec_tail [OF IH] hoare2_bnd)
  using assms(2-) wf_bound [OF assms(2)] apply (simp_all add: prog_defs)
  apply (arith+)?
  done

lemma declareParameter_parser_ok:
  assumes IH: "rec_ok M rec rec'" and "wf s" and "0 < current s"
    and "16 * length (tokens s) + 16 \<le> M + 16 * current s"
  shows "fine False s (declareParameter_parser cfg rec scope')
                      (declareParameter_parser cfg rec' scope')"
  unfolding declareParameter_parser_def declareNormalParameters_def
    declaredDefaultedParameters_def fine_def
  apply (intro wp_ops wp_rec_tail [OF IH] hoare2_bnd)
  using assms(2-) wf_bound [OF assms(2)] apply (simp_all add: prog_defs)
  apply (arith+)?
  done

lemma declareLock_parser_ok:
  assumes IH: "rec_ok M rec rec'" and "wf s" and "0 < current s"
    and "16 * length (tokens s) + 16 \<le> M + 16 * current s"
  shows "fine False s (declareLock_parser cfg rec scope') (declareLock_parser cfg rec' scope')"
  unfolding declareLock_parser_def fine_def
  apply (intro wp_ops fine_tail [OF expression_ok [OF IH]] hoare2_bnd)
  using assms(2-) wf_bound [OF assms(2)] apply (simp_all add: prog_defs)
  apply (arith+)?
  done

lemma declareVariable_parser_ok:
  assumes IH: "rec_ok M rec rec'" and "wf s" and "0 < current s"
    and "16 * length (tokens s) + 16 \<le> M + 16 * current s"
  shows "fine False s (declareVariable_parser cfg rec scope')
                      (declareVariable_parser cfg rec' scope')"
  unfolding declareVariable_parser_def fine_def
  apply (intro wp_ops fine_tail [OF expression_ok [OF IH]] hoare2_bnd)
  using assms(2-) wf_bound [OF assms(2)] apply (simp_all add: prog_defs)
  apply (arith+)?
  done

text \<open>\<open>define\<close> is entered on one of its six keywords, and consumes it.\<close>

lemma defineInst_ok:
  assumes IH: "rec_ok M rec rec'" and "wf s"
    and "ptype s \<in> set [tt_declare, tt_local, tt_global, tt_parameter, tt_function, tt_lock]"
    and "ptype s \<noteq> tt_eof"
    and "16 * length (tokens s) + 13 \<le> M + 16 * current s"
  shows "fine True s (defineInst cfg rec) (defineInst cfg rec')"
  unfolding defineInst_def fine_def
  apply (intro wp_ops fine_tail [OF declareFunction_parser_ok [OF IH]]
      fine_tail [OF declareParameter_parser_ok [OF IH]]
      fine_tail [OF declareLock_parser_ok [OF IH]]
      fine_tail [OF declareVariable_parser_ok [OF IH]] hoare2_bnd)
  using assms(2-) wf_bound [OF assms(2)] apply (simp_all add: prog_defs)
  apply (arith+)?
  done
subsection \<open>The methods for instructions\<close>

lemma onOff_ok:
  assumes "wf s" and "0 < current s"
  shows "fine False s (onOff cfg suffix') (onOff cfg suffix')"
  unfolding onOff_def fine_def
  apply (intro wp_ops hoare2_bnd)
  using assms wf_bound [OF assms(1)] apply (simp_all add: prog_defs)
  apply (arith+)?
  done

lemma identifierLedInstruction_ok:
  assumes IH: "rec_ok M rec rec'" and "wf s" and "startsAtom cfg s"
    and "16 * length (tokens s) + 2 < M + 16 * current s"
  shows "fine True s (identifierLedInstruction cfg rec) (identifierLedInstruction cfg rec')"
  unfolding identifierLedInstruction_def fine_def
  apply (intro wp_ops fine_tail [OF suffixCatch_ok [OF IH]] fine_tail [OF onOff_ok] wp_rec_tail [OF IH] hoare2_bnd)
  using assms(2-) wf_bound [OF assms(2)] apply (simp_all add: prog_defs)
  apply (arith+)?
  done

lemma command_ok:
  assumes "wf s" and "0 < current s"
  shows "fine False s (command cfg) (command cfg)"
  unfolding command_def fine_def
  apply (intro wp_ops hoare2_bnd)
  using assms wf_bound [OF assms(1)] apply (simp_all add: prog_defs)
  apply (arith+)?
  done

lemma commandExpression_ok:
  assumes IH: "rec_ok M rec rec'" and "wf s" and "0 < current s"
    and "16 * length (tokens s) + 16 \<le> M + 16 * current s"
  shows "fine False s (commandExpression cfg rec) (commandExpression cfg rec')"
  unfolding commandExpression_def fine_def
  apply (intro wp_ops fine_tail [OF expression_ok [OF IH]] wp_rec_tail [OF IH] hoare2_bnd)
  using assms(2-) wf_bound [OF assms(2)] apply (simp_all add: prog_defs)
  apply (arith+)?
  done

lemma unset_ok:
  assumes "wf s" and "0 < current s"
  shows "fine False s (unset cfg) (unset cfg)"
  unfolding unset_def fine_def
  apply (intro wp_ops hoare2_bnd)
  using assms wf_bound [OF assms(1)] apply (simp_all add: prog_defs)
  apply (arith+)?
  done

lemma unlock_ok:
  assumes "wf s" and "0 < current s"
  shows "fine False s (unlock cfg) (unlock cfg)"
  unfolding unlock_def fine_def
  apply (intro wp_ops hoare2_bnd)
  using assms wf_bound [OF assms(1)] apply (simp_all add: prog_defs)
  apply (arith+)?
  done

lemma setInst_ok:
  assumes IH: "rec_ok M rec rec'" and "wf s" and "0 < current s"
    and "16 * length (tokens s) + 16 \<le> M + 16 * current s"
  shows "fine False s (setInst cfg rec) (setInst cfg rec')"
  unfolding setInst_def fine_def
  apply (intro wp_ops fine_tail [OF suffixCatch_ok [OF IH]] fine_tail [OF expression_ok [OF IH]] wp_rec_tail [OF IH] hoare2_bnd)
  using assms(2-) wf_bound [OF assms(2)] apply (simp_all add: prog_defs)
  apply (arith+)?
  done

lemma lazyGlobal_ok:
  assumes "wf s" and "0 < current s"
  shows "fine False s (lazyGlobal cfg) (lazyGlobal cfg)"
  unfolding lazyGlobal_def fine_def
  apply (intro wp_ops hoare2_bnd)
  using assms wf_bound [OF assms(1)] apply (simp_all add: prog_defs)
  apply (arith+)?
  done

lemma ifInst_ok:
  assumes IH: "rec_ok M rec rec'" and "wf s" and "0 < current s"
    and "16 * length (tokens s) + 16 \<le> M + 16 * current s"
  shows "fine False s (ifInst cfg rec) (ifInst cfg rec')"
  unfolding ifInst_def fine_def
  apply (intro wp_ops fine_tail [OF expression_ok [OF IH]] wp_rec_tail [OF IH] hoare2_bnd)
  using assms(2-) wf_bound [OF assms(2)] apply (simp_all add: prog_defs)
  apply (arith+)?
  done

lemma until_ok:
  assumes IH: "rec_ok M rec rec'" and "wf s" and "0 < current s"
    and "16 * length (tokens s) + 16 \<le> M + 16 * current s"
  shows "fine False s (until cfg rec) (until cfg rec')"
  unfolding until_def fine_def
  apply (intro wp_ops fine_tail [OF expression_ok [OF IH]] wp_rec_tail [OF IH] hoare2_bnd)
  using assms(2-) wf_bound [OF assms(2)] apply (simp_all add: prog_defs)
  apply (arith+)?
  done

lemma fromInst_ok:
  assumes IH: "rec_ok M rec rec'" and "wf s" and "0 < current s"
    and "16 * length (tokens s) + 16 \<le> M + 16 * current s"
  shows "fine False s (fromInst cfg rec) (fromInst cfg rec')"
  unfolding fromInst_def fine_def
  apply (intro wp_ops fine_tail [OF expression_ok [OF IH]] fine_tail [OF instructionBlock_ok [OF IH]] wp_rec_tail [OF IH] hoare2_bnd)
  using assms(2-) wf_bound [OF assms(2)] apply (simp_all add: prog_defs)
  apply (arith+)?
  done

lemma whenInst_ok:
  assumes IH: "rec_ok M rec rec'" and "wf s" and "0 < current s"
    and "16 * length (tokens s) + 16 \<le> M + 16 * current s"
  shows "fine False s (whenInst cfg rec) (whenInst cfg rec')"
  unfolding whenInst_def fine_def
  apply (intro wp_ops fine_tail [OF expression_ok [OF IH]] wp_rec_tail [OF IH] hoare2_bnd)
  using assms(2-) wf_bound [OF assms(2)] apply (simp_all add: prog_defs)
  apply (arith+)?
  done

lemma returnInst_ok:
  assumes IH: "rec_ok M rec rec'" and "wf s" and "0 < current s"
    and "16 * length (tokens s) + 16 \<le> M + 16 * current s"
  shows "fine False s (returnInst cfg rec) (returnInst cfg rec')"
  unfolding returnInst_def fine_def
  apply (intro wp_ops fine_tail [OF expression_ok [OF IH]] wp_rec_tail [OF IH] hoare2_bnd)
  using assms(2-) wf_bound [OF assms(2)] apply (simp_all add: prog_defs)
  apply (arith+)?
  done

lemma breakInst_ok:
  assumes "wf s" and "0 < current s"
  shows "fine False s (breakInst cfg) (breakInst cfg)"
  unfolding breakInst_def fine_def
  apply (intro wp_ops hoare2_bnd)
  using assms wf_bound [OF assms(1)] apply (simp_all add: prog_defs)
  apply (arith+)?
  done

lemma switchInst_ok:
  assumes IH: "rec_ok M rec rec'" and "wf s" and "0 < current s"
    and "16 * length (tokens s) + 16 \<le> M + 16 * current s"
  shows "fine False s (switchInst cfg rec) (switchInst cfg rec')"
  unfolding switchInst_def fine_def
  apply (intro wp_ops fine_tail [OF expression_ok [OF IH]] wp_rec_tail [OF IH] hoare2_bnd)
  using assms(2-) wf_bound [OF assms(2)] apply (simp_all add: prog_defs)
  apply (arith+)?
  done

lemma forInst_ok:
  assumes IH: "rec_ok M rec rec'" and "wf s" and "0 < current s"
    and "16 * length (tokens s) + 16 \<le> M + 16 * current s"
  shows "fine False s (forInst cfg rec) (forInst cfg rec')"
  unfolding forInst_def fine_def
  apply (intro wp_ops fine_tail [OF suffixCatch_ok [OF IH]] wp_rec_tail [OF IH] hoare2_bnd)
  using assms(2-) wf_bound [OF assms(2)] apply (simp_all add: prog_defs)
  apply (arith+)?
  done

lemma onInst_ok:
  assumes IH: "rec_ok M rec rec'" and "wf s" and "0 < current s"
    and "16 * length (tokens s) + 16 \<le> M + 16 * current s"
  shows "fine False s (onInst cfg rec) (onInst cfg rec')"
  unfolding onInst_def fine_def
  apply (intro wp_ops fine_tail [OF suffixCatch_ok [OF IH]] wp_rec_tail [OF IH] hoare2_bnd)
  using assms(2-) wf_bound [OF assms(2)] apply (simp_all add: prog_defs)
  apply (arith+)?
  done

lemma toggle_ok:
  assumes IH: "rec_ok M rec rec'" and "wf s" and "0 < current s"
    and "16 * length (tokens s) + 16 \<le> M + 16 * current s"
  shows "fine False s (toggle cfg rec) (toggle cfg rec')"
  unfolding toggle_def fine_def
  apply (intro wp_ops fine_tail [OF suffixCatch_ok [OF IH]] wp_rec_tail [OF IH] hoare2_bnd)
  using assms(2-) wf_bound [OF assms(2)] apply (simp_all add: prog_defs)
  apply (arith+)?
  done

lemma wait_ok:
  assumes IH: "rec_ok M rec rec'" and "wf s" and "0 < current s"
    and "16 * length (tokens s) + 16 \<le> M + 16 * current s"
  shows "fine False s (wait cfg rec) (wait cfg rec')"
  unfolding wait_def fine_def
  apply (intro wp_ops fine_tail [OF expression_ok [OF IH]] wp_rec_tail [OF IH] hoare2_bnd)
  using assms(2-) wf_bound [OF assms(2)] apply (simp_all add: prog_defs)
  apply (arith+)?
  done

lemma logInst_ok:
  assumes IH: "rec_ok M rec rec'" and "wf s" and "0 < current s"
    and "16 * length (tokens s) + 16 \<le> M + 16 * current s"
  shows "fine False s (logInst cfg rec) (logInst cfg rec')"
  unfolding logInst_def fine_def
  apply (intro wp_ops fine_tail [OF expression_ok [OF IH]] wp_rec_tail [OF IH] hoare2_bnd)
  using assms(2-) wf_bound [OF assms(2)] apply (simp_all add: prog_defs)
  apply (arith+)?
  done

lemma copy_ok:
  assumes IH: "rec_ok M rec rec'" and "wf s" and "0 < current s"
    and "16 * length (tokens s) + 16 \<le> M + 16 * current s"
  shows "fine False s (copy cfg rec) (copy cfg rec')"
  unfolding copy_def fine_def
  apply (intro wp_ops fine_tail [OF expression_ok [OF IH]] wp_rec_tail [OF IH] hoare2_bnd)
  using assms(2-) wf_bound [OF assms(2)] apply (simp_all add: prog_defs)
  apply (arith+)?
  done

lemma rename_ok:
  assumes IH: "rec_ok M rec rec'" and "wf s" and "0 < current s"
    and "16 * length (tokens s) + 16 \<le> M + 16 * current s"
  shows "fine False s (rename cfg rec) (rename cfg rec')"
  unfolding rename_def fine_def
  apply (intro wp_ops fine_tail [OF expression_ok [OF IH]] wp_rec_tail [OF IH] hoare2_bnd)
  using assms(2-) wf_bound [OF assms(2)] apply (simp_all add: prog_defs)
  apply (arith+)?
  done

lemma delete_ok:
  assumes IH: "rec_ok M rec rec'" and "wf s" and "0 < current s"
    and "16 * length (tokens s) + 16 \<le> M + 16 * current s"
  shows "fine False s (delete cfg rec) (delete cfg rec')"
  unfolding delete_def fine_def
  apply (intro wp_ops fine_tail [OF expression_ok [OF IH]] wp_rec_tail [OF IH] hoare2_bnd)
  using assms(2-) wf_bound [OF assms(2)] apply (simp_all add: prog_defs)
  apply (arith+)?
  done

lemma runInst_ok:
  assumes IH: "rec_ok M rec rec'" and "wf s" and "0 < current s"
    and "16 * length (tokens s) + 16 \<le> M + 16 * current s"
  shows "fine False s (runInst cfg rec) (runInst cfg rec')"
  unfolding runInst_def fine_def
  apply (intro wp_ops fine_tail [OF expression_ok [OF IH]] fine_tail [OF arguments_ok [OF IH]] wp_rec_tail [OF IH] hoare2_bnd)
  using assms(2-) wf_bound [OF assms(2)] apply (simp_all add: prog_defs)
  apply (arith+)?
  done

lemma runPath_ok:
  assumes IH: "rec_ok M rec rec'" and "wf s" and "0 < current s"
    and "16 * length (tokens s) + 16 \<le> M + 16 * current s"
  shows "fine False s (runPath cfg rec) (runPath cfg rec')"
  unfolding runPath_def fine_def
  apply (intro wp_ops fine_tail [OF expression_ok [OF IH]] fine_tail [OF arguments_ok [OF IH]] wp_rec_tail [OF IH] hoare2_bnd)
  using assms(2-) wf_bound [OF assms(2)] apply (simp_all add: prog_defs)
  apply (arith+)?
  done

lemma runPathOnce_ok:
  assumes IH: "rec_ok M rec rec'" and "wf s" and "0 < current s"
    and "16 * length (tokens s) + 16 \<le> M + 16 * current s"
  shows "fine False s (runPathOnce cfg rec) (runPathOnce cfg rec')"
  unfolding runPathOnce_def fine_def
  apply (intro wp_ops fine_tail [OF expression_ok [OF IH]] fine_tail [OF arguments_ok [OF IH]] wp_rec_tail [OF IH] hoare2_bnd)
  using assms(2-) wf_bound [OF assms(2)] apply (simp_all add: prog_defs)
  apply (arith+)?
  done

lemma compile_ok:
  assumes IH: "rec_ok M rec rec'" and "wf s" and "0 < current s"
    and "16 * length (tokens s) + 16 \<le> M + 16 * current s"
  shows "fine False s (compile cfg rec) (compile cfg rec')"
  unfolding compile_def fine_def
  apply (intro wp_ops fine_tail [OF expression_ok [OF IH]] wp_rec_tail [OF IH] hoare2_bnd)
  using assms(2-) wf_bound [OF assms(2)] apply (simp_all add: prog_defs)
  apply (arith+)?
  done

lemma listInst_ok:
  assumes "wf s" and "0 < current s"
  shows "fine False s (listInst cfg) (listInst cfg)"
  unfolding listInst_def fine_def
  apply (intro wp_ops hoare2_bnd)
  using assms wf_bound [OF assms(1)] apply (simp_all add: prog_defs)
  apply (arith+)?
  done

lemma printInst_ok:
  assumes IH: "rec_ok M rec rec'" and "wf s" and "0 < current s"
    and "16 * length (tokens s) + 16 \<le> M + 16 * current s"
  shows "fine False s (printInst cfg rec) (printInst cfg rec')"
  unfolding printInst_def fine_def
  apply (intro wp_ops fine_tail [OF expression_ok [OF IH]] wp_rec_tail [OF IH] hoare2_bnd)
  using assms(2-) wf_bound [OF assms(2)] apply (simp_all add: prog_defs)
  apply (arith+)?
  done
subsection \<open>Statements\<close>

text \<open>
  From here on \<open>isValidIdentifier\<close> is taken to accept the kind \<open>identifier\<close>. Then
  a statement that starts on a token consumes it, or throws an error that names no
  instruction, and \<open>synchronize\<close> consumes the token.
\<close>

lemma startsAtom_led:
  assumes "isValidIdentifier cfg tt_identifier"
    and "ptype s \<in> set [tt_integer, tt_double, tt_true, tt_false, tt_identifier,
                         tt_fileIdentifier, tt_bracketOpen, tt_string]"
  shows "startsAtom cfg s"
  using assms by (auto simp: startsAtom_def tt_defs)

lemma ptype_same: "tokens s' = tokens s \<Longrightarrow> current s' = current s \<Longrightarrow> ptype s' = ptype s"
  by (simp add: ptype_def)

lemma instruction_started:
  assumes IH: "rec_ok M rec rec'" and "wf s" and "isValidIdentifier cfg tt_identifier"
    and "ptype s \<noteq> tt_eof"
    and "16 * length (tokens s) + 13 \<le> M + 16 * current s"
  shows "hoare2 s (instruction cfg rec) (instruction cfg rec')
           (\<lambda>a s'. adv s s' \<and> current s < current s')
           (\<lambda>e s'. adv s s' \<and> (failedInst e = None \<or> current s < current s'))"
  unfolding instruction_def
  apply (intro wp_ops
      fine_tail [OF instructionBlock_ok [OF IH]]
      fine_tail [OF identifierLedInstruction_ok [OF IH]]
      fine_tail [OF command_ok] fine_tail [OF commandExpression_ok [OF IH]]
      fine_tail [OF unset_ok] fine_tail [OF unlock_ok] fine_tail [OF setInst_ok [OF IH]]
      fine_tail [OF lazyGlobal_ok] fine_tail [OF ifInst_ok [OF IH]]
      fine_tail [OF until_ok [OF IH]] fine_tail [OF fromInst_ok [OF IH]]
      fine_tail [OF whenInst_ok [OF IH]] fine_tail [OF returnInst_ok [OF IH]]
      fine_tail [OF breakInst_ok] fine_tail [OF switchInst_ok [OF IH]]
      fine_tail [OF forInst_ok [OF IH]] fine_tail [OF onInst_ok [OF IH]]
      fine_tail [OF toggle_ok [OF IH]] fine_tail [OF wait_ok [OF IH]]
      fine_tail [OF logInst_ok [OF IH]] fine_tail [OF copy_ok [OF IH]]
      fine_tail [OF rename_ok [OF IH]] fine_tail [OF delete_ok [OF IH]]
      fine_tail [OF runInst_ok [OF IH]] fine_tail [OF runPath_ok [OF IH]]
      fine_tail [OF runPathOnce_ok [OF IH]] fine_tail [OF compile_ok [OF IH]]
      fine_tail [OF listInst_ok] fine_tail [OF printInst_ok [OF IH]] hoare2_bnd)
  using assms(2-) wf_bound [OF assms(2)]
                      apply (simp_all add: prog_defs startsAtom_led del: set_simps)
  apply (arith+)?
  done

text \<open>At the end of the tokens \<open>instruction\<close> throws, and the error names no
  instruction.\<close>

lemma instruction_atEnd:
  assumes "wf s" and "ptype s = tt_eof"
  shows "hoare2 s (instruction cfg rec) (instruction cfg rec') (\<lambda>a s'. False)
           (\<lambda>e s'. s' = s \<and> failedInst e = None)"
  using assms
  by (simp add: hoare2_def instruction_def bnd_def peekType_wf peek_wf throw_def tt_defs)

lemma instruction_ok:
  assumes IH: "rec_ok M rec rec'" and "wf s" and "isValidIdentifier cfg tt_identifier"
    and "16 * length (tokens s) + 13 \<le> M + 16 * current s"
  shows "hoare2 s (instruction cfg rec) (instruction cfg rec')
           (\<lambda>a s'. adv s s' \<and> (ptype s \<noteq> tt_eof \<longrightarrow> current s < current s'))
           (\<lambda>e s'. adv s s' \<and>
              (ptype s \<noteq> tt_eof \<longrightarrow> failedInst e = None \<or> current s < current s'))"
proof (cases "ptype s = tt_eof")
  case True
  from instruction_atEnd [OF assms(2) True] show ?thesis
    by (rule hoare2_conseq) (simp_all add: True adv_refl [OF assms(2)])
next
  case False
  from instruction_started [OF IH assms(2,3) False assms(4)] show ?thesis
    by (rule hoare2_conseq) simp_all
qed

lemma statement_ok:
  assumes IH: "rec_ok M rec rec'" and "wf s" and "isValidIdentifier cfg tt_identifier"
    and "16 * length (tokens s) + 13 \<le> M + 16 * current s"
  shows "hoare2 s (statement cfg rec) (statement cfg rec')
           (\<lambda>a s'. adv s s' \<and> (ptype s \<noteq> tt_eof \<longrightarrow> current s < current s'))
           (\<lambda>e s'. adv s s' \<and>
              (ptype s \<noteq> tt_eof \<longrightarrow> failedInst e = None \<or> current s < current s'))"
  unfolding statement_def
  apply (intro wp_ops fine_tail [OF defineInst_ok [OF IH]]
      hoare2_conseq [OF instruction_ok [OF IH]])
  using assms(2-) apply (simp_all add: prog_defs del: set_simps)
  done

lemma synchronizeLoop_ok:
  assumes IH: "rec_ok M rec rec'" and "wf s" and "0 < current s"
    and "16 * length (tokens s) \<le> M + 16 * current s"
  shows "hoare2 s (synchronizeLoop rec) (synchronizeLoop rec') (\<lambda>a s'. adv s s') (\<lambda>e s'. False)"
  unfolding synchronizeLoop_def
  apply (intro wp_ops wp_rec_tail [OF IH] hoare2_bnd)
  using assms(2-) wf_bound [OF assms(2)] apply (simp_all add: prog_defs del: set_simps)
  apply (arith+)?
  done

lemma synchronize_ok:
  assumes IH: "rec_ok M rec rec'" and "wf s" and "failedInst e \<noteq> None \<longrightarrow> 0 < current s"
    and "16 * length (tokens s) + 12 < M + 16 * current s"
  shows "hoare2 s (synchronize rec e) (synchronize rec' e)
           (\<lambda>a s'. adv s s' \<and> (failedInst e = None \<longrightarrow> ptype s \<noteq> tt_eof \<longrightarrow> current s < current s'))
           (\<lambda>e s'. False)"
  unfolding synchronize_def
  apply (intro wp_ops wp_rec_tail [OF IH] hoare2_bnd)
  using assms(2-) wf_bound [OF assms(2)] apply (auto simp: prog_defs)
  done

text \<open>A statement that \<open>declaration\<close> starts on a token moves the cursor, and
  \<open>declaration\<close> throws nothing.\<close>

lemma declarationInst_ok:
  assumes IH: "rec_ok M rec rec'" and wf: "wf s" and idk: "isValidIdentifier cfg tt_identifier"
    and M: "16 * length (tokens s) + 13 \<le> M + 16 * current s"
  shows "hoare2 s (declarationInst cfg rec) (declarationInst cfg rec')
           (\<lambda>a s'. adv s s' \<and> (ptype s \<noteq> tt_eof \<longrightarrow> current s < current s'))
           (\<lambda>e s'. False)"
  unfolding declarationInst_def
proof (intro wp_getCurrent hoare2_tryCatch, rule hoare2_conseq [OF statement_ok [OF IH wf idk M]])
  fix a s' assume "adv s s' \<and> (ptype s \<noteq> tt_eof \<longrightarrow> current s < current s')"
  then show "adv s s' \<and> (ptype s \<noteq> tt_eof \<longrightarrow> current s < current s')" .
next
  fix e s1
  assume E: "adv s s1 \<and> (ptype s \<noteq> tt_eof \<longrightarrow> failedInst e = None \<or> current s < current s1)"
  then have a1: "adv s s1" and wf1: "wf s1" and tk: "tokens s1 = tokens s"
    and le: "current s \<le> current s1" by (simp_all add: adv_def)
  have pos: "failedInst e \<noteq> None \<longrightarrow> 0 < current s1"
  proof (cases "ptype s = tt_eof")
    case True
    with wf have "0 < current s" by (rule wf_started)
    with le show ?thesis by simp
  next
    case False
    with E show ?thesis by auto
  qed
  have M1: "16 * length (tokens s1) + 12 < M + 16 * current s1"
    using M tk le by simp
  have moved: "ptype s \<noteq> tt_eof \<Longrightarrow> failedInst e = None \<Longrightarrow> current s1 = current s
      \<Longrightarrow> ptype s1 \<noteq> tt_eof"
    using ptype_same [OF tk] by simp
  show "hoare2 s1
          (bnd (synchronize rec e) (\<lambda>_. bnd (tokensSlice (current s)) (\<lambda>skipped.
             ret (Node ''Inst.Invalid'' [Nodes (map Token skipped)], [e]))))
          (bnd (synchronize rec' e) (\<lambda>_. bnd (tokensSlice (current s)) (\<lambda>skipped.
             ret (Node ''Inst.Invalid'' [Nodes (map Token skipped)], [e]))))
          (\<lambda>a s'. adv s s' \<and> (ptype s \<noteq> tt_eof \<longrightarrow> current s < current s'))
          (\<lambda>e s'. False)"
  proof (intro hoare2_bnd, rule hoare2_conseq [OF synchronize_ok [OF IH wf1 pos M1]])
    fix a s2
    assume S: "adv s1 s2 \<and> (failedInst e = None \<longrightarrow> ptype s1 \<noteq> tt_eof \<longrightarrow> current s1 < current s2)"
    have a2: "adv s s2" using a1 S by (auto intro: adv_trans)
    have "ptype s \<noteq> tt_eof \<longrightarrow> current s < current s2"
    proof
      assume ne: "ptype s \<noteq> tt_eof"
      show "current s < current s2"
      proof (cases "current s < current s1")
        case True
        with S show ?thesis by (simp add: adv_def)
      next
        case False
        with le have eq: "current s1 = current s" by simp
        with E ne False have fi: "failedInst e = None" by auto
        from moved [OF ne fi eq] S fi eq show ?thesis by simp
      qed
    qed
    with a2 show "hoare2 s2
          (bnd (tokensSlice (current s)) (\<lambda>skipped.
             ret (Node ''Inst.Invalid'' [Nodes (map Token skipped)], [e])))
          (bnd (tokensSlice (current s)) (\<lambda>skipped.
             ret (Node ''Inst.Invalid'' [Nodes (map Token skipped)], [e])))
          (\<lambda>a s'. adv s s' \<and> (ptype s \<noteq> tt_eof \<longrightarrow> current s < current s'))
          (\<lambda>e s'. False)"
      by (intro wp_tokensSlice hoare2_ret) simp
  qed simp
qed

lemma parseLoop_ok:
  assumes IH: "rec_ok M rec rec'" and "wf s"
    and "16 * length (tokens s) + 14 \<le> M + 16 * current s"
  shows "hoare2 s (parseLoop rec instructions errs) (parseLoop rec' instructions errs)
           (\<lambda>a s'. adv s s') (\<lambda>e s'. False)"
  unfolding parseLoop_def
  apply (intro wp_ops wp_rec_tail [OF IH] hoare2_bnd)
  using assms(2-) wf_bound [OF assms(2)] apply (simp_all add: prog_defs)
  apply (arith+)?
  done

subsection \<open>Every call of the table returns\<close>

lemma body_ok:
  assumes IH: "rec_ok M rec rec'" and idk: "isValidIdentifier cfg tt_identifier"
    and wf: "wf s" and pre: "knotPre nt s"
    and M: "16 * length (tokens s) + rank nt \<le> M + 16 * current s"
  shows "hoare2 s (body cfg rec nt) (body cfg rec' nt) (knotQ nt s) (knotE nt s)"
proof (cases nt)
  case NT_declaration
  with M have B: "16 * length (tokens s) + 13 \<le> M + 16 * current s" by simp
  from NT_declaration show ?thesis
    by (simp add: body_def)
      (rule hoare2_conseq [OF declarationInst_ok [OF IH wf idk B]]; simp add: knotQ_def knotE_def)
next
  case (NT_expression inst)
  with M have B: "16 * length (tokens s) + 10 < M + 16 * current s" by simp
  from NT_expression show ?thesis
    by (simp add: body_def)
      (rule hoare2_conseq [OF expression_ok [OF IH wf B, unfolded fine_def]]; simp add: knotQ_def knotE_def)
next
  case NT_unary
  with M have B: "16 * length (tokens s) + 3 < M + 16 * current s" by simp
  from NT_unary show ?thesis
    by (simp add: body_def)
      (rule hoare2_conseq [OF unary_ok [OF IH wf B, unfolded fine_def]]; simp add: knotQ_def knotE_def)
next
  case (BinaryLoop level expr)
  from M have B: "16 * length (tokens s) \<le> M + 16 * current s" by simp
  from BinaryLoop show ?thesis
    by (simp add: body_def)
      (rule hoare2_conseq [OF binaryLoop_ok [OF IH wf B, unfolded fine_def]]; simp add: knotQ_def knotE_def)
next
  case (FactorLoop expr)
  from M have B: "16 * length (tokens s) \<le> M + 16 * current s" by simp
  from FactorLoop show ?thesis
    by (simp add: body_def)
      (rule hoare2_conseq [OF factorLoop_ok [OF IH wf B, unfolded fine_def]]; simp add: knotQ_def knotE_def)
next
  case (SuffixLoop expr)
  from M have B: "16 * length (tokens s) \<le> M + 16 * current s" by simp
  from SuffixLoop show ?thesis
    by (simp add: body_def)
      (rule hoare2_conseq [OF suffixLoop_ok [OF IH wf B, unfolded fine_def]]; simp add: knotQ_def knotE_def)
next
  case (SuffixTermLoop isTrailer expr)
  from M have B: "16 * length (tokens s) \<le> M + 16 * current s" by simp
  from SuffixTermLoop show ?thesis
    by (simp add: body_def)
      (rule hoare2_conseq [OF suffixTermLoop_ok [OF IH wf B, unfolded fine_def]]; simp add: knotQ_def knotE_def)
next
  case (ArgumentsLoop args errs)
  with M have B: "16 * length (tokens s) + 14 \<le> M + 16 * current s" by simp
  from ArgumentsLoop show ?thesis
    by (simp add: body_def)
      (rule hoare2_conseq [OF argumentsLoop_ok [OF IH wf B, unfolded fine_def]]; simp add: knotQ_def knotE_def)
next
  case (NormalParametersLoop parameters)
  with pre have pos: "0 < current s" by (simp add: knotPre_def)
  from M have B: "16 * length (tokens s) \<le> M + 16 * current s" by simp
  from NormalParametersLoop show ?thesis
    by (simp add: body_def)
      (rule hoare2_conseq [OF normalParametersLoop_ok [OF IH wf pos B, unfolded fine_def]]; simp add: knotQ_def knotE_def)
next
  case (DefaultedParametersLoop parameters errs)
  with pre have pos: "0 < current s" by (simp add: knotPre_def)
  from M have B: "16 * length (tokens s) \<le> M + 16 * current s" by simp
  from DefaultedParametersLoop show ?thesis
    by (simp add: body_def)
      (rule hoare2_conseq [OF defaultedParametersLoop_ok [OF IH wf pos B, unfolded fine_def]]; simp add: knotQ_def knotE_def)
next
  case (DeclarationsLoop declarations errs)
  with M have B: "16 * length (tokens s) + 13 < M + 16 * current s" by simp
  from DeclarationsLoop show ?thesis
    by (simp add: body_def)
      (rule hoare2_conseq [OF declarationsLoop_ok [OF IH wf B, unfolded fine_def]]; simp add: knotQ_def knotE_def)
next
  case SynchronizeLoop
  with pre have pos: "0 < current s" by (simp add: knotPre_def)
  from M have B: "16 * length (tokens s) \<le> M + 16 * current s" by simp
  from SynchronizeLoop show ?thesis
    by (simp add: body_def)
      (rule hoare2_conseq [OF synchronizeLoop_ok [OF IH wf pos B]]; simp add: knotQ_def knotE_def)
next
  case (ParseLoop instructions errs)
  with M have B: "16 * length (tokens s) + 14 \<le> M + 16 * current s" by simp
  from ParseLoop show ?thesis
    by (simp add: body_def)
      (rule hoare2_conseq [OF parseLoop_ok [OF IH wf B]]; simp add: knotQ_def knotE_def)
qed

text \<open>
  With \<open>n\<close> nested calls allowed, every call that is within its measure returns, and it
  returns the same with any larger number.
\<close>

lemma parserRec_ok:
  assumes "isValidIdentifier cfg tt_identifier"
  shows "n \<le> n' \<Longrightarrow> rec_ok n (parserRec cfg n) (parserRec cfg n')"
proof (induction n arbitrary: n')
  case 0
  show ?case
    unfolding rec_ok_def
  proof (intro allI impI)
    fix nt s assume "wf s" and "16 * length (tokens s) + rank nt < 0 + 16 * current s"
    with wf_bound [of s] have False by simp
    then show "hoare2 s (parserRec cfg 0 nt) (parserRec cfg n' nt) (knotQ nt s) (knotE nt s)" ..
  qed
next
  case (Suc n)
  then obtain m where m: "n' = Suc m" and le: "n \<le> m" by (cases n') auto
  note IH = Suc.IH [OF le]
  show ?case
    unfolding rec_ok_def m
  proof (intro allI impI)
    fix nt s
    assume wf: "wf s" and pre: "knotPre nt s"
      and "16 * length (tokens s) + rank nt < Suc n + 16 * current s"
    then have "16 * length (tokens s) + rank nt \<le> n + 16 * current s" by simp
    from body_ok [OF IH assms wf pre this]
    show "hoare2 s (parserRec cfg (Suc n) nt) (parserRec cfg (Suc m) nt) (knotQ nt s) (knotE nt s)"
      by simp
  qed
qed

subsection \<open>The run of \<open>parse\<close>\<close>

lemma eof_type [simp]: "tokenType (eof toks) = tt_eof"
  by (simp add: eof_def Let_def)

lemma newParser_fields [simp]:
  "tokens (newParser toks) = toks @ [eof toks]" "current (newParser toks) = 0"
  "runInsts (newParser toks) = []" "strayReads (newParser toks) = []"
  by (simp_all add: newParser_def)

lemma newParser_wf: "ptype (newParser toks) \<noteq> tt_eof \<Longrightarrow> wf (newParser toks)"
  by (simp add: wf_def)

text \<open>When the first token is of the kind \<open>eof\<close>, and so for no tokens at all, the loop
  of \<open>parse\<close> ends at once.\<close>

lemma parseLoop_atEnd:
  assumes "current s < length (tokens s)" and "ptype s = tt_eof"
  shows "parseLoop rec instructions errs s = Some (Ok (Nodes instructions, errs) s)"
  using assms
  by (simp add: parseLoop_def isAtEnd_def peekType_def peek_def readToken_def tokenAt_def
      typeOf_def bnd_def ret_def ptype_def)

text \<open>
  The run of the loop of \<open>parse\<close> from a state, with \<open>fuel\<close> nested calls: it returns,
  it returns the same with more calls, and it leaves a state with the same tokens.
\<close>

lemma parseLoop_returns:
  assumes idk: "isValidIdentifier cfg tt_identifier"
    and "16 * length toks + 31 \<le> fuel" and "fuel \<le> fuel'"
  shows "\<exists>r s'. parserRec cfg fuel (ParseLoop [] []) (newParser toks) = Some (Ok r s') \<and>
           parserRec cfg fuel' (ParseLoop [] []) (newParser toks) = Some (Ok r s') \<and>
           tokens s' = toks @ [eof toks] \<and> current s' < length (tokens s') \<and>
           list_all (\<lambda>i. i = int (length toks) + 1) (strayReads s')"
proof (cases "ptype (newParser toks) = tt_eof")
  case True
  from assms(2) obtain n where n: "fuel = Suc n" by (cases fuel) auto
  with assms(3) obtain n' where n': "fuel' = Suc n'" by (cases fuel') auto
  have "current (newParser toks) < length (tokens (newParser toks))" by simp
  from parseLoop_atEnd [OF this True] show ?thesis
    by (simp add: n n' body_def)
next
  case False
  then have wf0: "wf (newParser toks)" by (rule newParser_wf)
  have "rec_ok fuel (parserRec cfg fuel) (parserRec cfg fuel')"
    using idk assms(3) by (rule parserRec_ok)
  moreover have "knotPre (ParseLoop [] []) (newParser toks)" by (simp add: knotPre_def)
  moreover have "16 * length (tokens (newParser toks)) + rank (ParseLoop [] [])
      < fuel + 16 * current (newParser toks)"
    using assms(2) by simp
  ultimately have "hoare2 (newParser toks) (parserRec cfg fuel (ParseLoop [] []))
      (parserRec cfg fuel' (ParseLoop [] []))
      (knotQ (ParseLoop [] []) (newParser toks)) (knotE (ParseLoop [] []) (newParser toks))"
    using wf0 by (simp add: rec_ok_def)
  then obtain out where out: "parserRec cfg fuel (ParseLoop [] []) (newParser toks) = Some out"
      "parserRec cfg fuel' (ParseLoop [] []) (newParser toks) = Some out"
    and p: "case out of Ok a s' \<Rightarrow> knotQ (ParseLoop [] []) (newParser toks) a s'
              | Throw e s' \<Rightarrow> knotE (ParseLoop [] []) (newParser toks) e s' | Crash \<Rightarrow> False"
    by (rule hoare2D)
  show ?thesis
  proof (cases out)
    case (Ok r s')
    with p have "adv (newParser toks) s'" by (simp add: knotQ_def)
    then have "tokens s' = toks @ [eof toks]" "current s' < length (tokens s')"
      "list_all (\<lambda>i. i = int (length toks) + 1) (strayReads s')"
      by (auto simp: adv_def wf_def add.commute)
    with out Ok show ?thesis by simp
  next
    case (Throw e s')
    with p show ?thesis by (simp add: knotE_def)
  next
    case Crash
    with p show ?thesis by simp
  qed
qed

text \<open>
  C1. Let \<open>isValidIdentifier\<close> (entities/tokentypes, not under src) accept the kind
  \<open>identifier\<close>. Then for every list of tokens \<open>parse\<close> returns: \<open>16 * length toks + 31\<close>
  nested calls are enough, the result is the same for any larger number, and the loop
  ends with a result, not with an exception for the \<open>catch\<close> of \<open>parse\<close>.
\<close>

theorem parse_terminates:
  assumes "isValidIdentifier cfg tt_identifier" and "16 * length toks + 31 \<le> fuel"
  shows "\<exists>r. parse cfg fuel toks = Some r \<and>
           (\<forall>k. parse cfg (fuel + k) toks = Some r) \<and>
           (\<exists>x s'. parserRec cfg fuel (ParseLoop [] []) (newParser toks) = Some (Ok x s'))"
proof -
  from parseLoop_returns [OF assms le_refl] obtain r s'
    where run: "parserRec cfg fuel (ParseLoop [] []) (newParser toks) = Some (Ok r s')" by blast
  have "\<forall>k. parse cfg (fuel + k) toks = parse cfg fuel toks"
  proof
    fix k
    from parseLoop_returns [OF assms, of "fuel + k"] run
    have "parserRec cfg (fuel + k) (ParseLoop [] []) (newParser toks) = Some (Ok r s')" by auto
    with run show "parse cfg (fuel + k) toks = parse cfg fuel toks" by (simp add: parse_def)
  qed
  with run show ?thesis by (simp add: parse_def)
qed

text \<open>\<open>parse_terminates\<close> at three tokens, \<open>print 1.\<close>\<close>

definition example_token :: "TokenType \<Rightarrow> IToken" where
  "example_token t =
     \<lparr>tokenType = t, lexeme = [], start = \<lparr>line = 0, character = 0\<rparr>,
      tend = \<lparr>line = 0, character = 1\<rparr>, uri = [], tracker = None\<rparr>"

definition example_cfg :: ParserConfig where
  "example_cfg =
     \<lparr>isValidIdentifier = (\<lambda>t. t = tt_identifier),
      instanceofExpr = (\<lambda>c. take 5 c = ''Expr.''),
      instanceofInst = (\<lambda>c. take 5 c = ''Inst.'' \<or> take 5 c = ''Decl.'')\<rparr>"

theorem parse_terminates_witness:
  "isValidIdentifier example_cfg tt_identifier \<and>
   16 * length (map example_token [tt_print, tt_integer, tt_period]) + 31 \<le> (79::nat) \<and>
   (\<exists>r. parse example_cfg 79 (map example_token [tt_print, tt_integer, tt_period]) = Some r \<and>
      (\<forall>k. parse example_cfg (79 + k) (map example_token [tt_print, tt_integer, tt_period])
             = Some r) \<and>
      (\<exists>x s'. parserRec example_cfg 79 (ParseLoop [] [])
                 (newParser (map example_token [tt_print, tt_integer, tt_period]))
               = Some (Ok x s')))"
  using parse_terminates
    [of example_cfg "map example_token [tt_print, tt_integer, tt_period]" 79]
  by (simp add: example_cfg_def)

subsection \<open>Reads outside the array of tokens\<close>





subsection \<open>The kind of a parsed statement\<close>

text \<open>The class of a node of the syntax tree, and the results that are no \<open>Inst.Invalid\<close>.\<close>

fun nodeKind :: "Node \<Rightarrow> string" where
  "nodeKind (Node kind parts) = kind"
| "nodeKind node = []"

definition notInvalid :: "NodeResult \<Rightarrow> bool" where
  "notInvalid r = (nodeKind (fst r) \<noteq> ''Inst.Invalid'')"

text \<open>\<open>yields P m\<close>: what \<open>m\<close> returns satisfies \<open>P\<close>.\<close>

definition yields :: "('a \<Rightarrow> bool) \<Rightarrow> 'a parserM \<Rightarrow> bool" where
  "yields P m = (\<forall>s a s'. m s = Some (Ok a s') \<longrightarrow> P a)"

lemma yieldsD: "yields P m \<Longrightarrow> m s = Some (Ok a s') \<Longrightarrow> P a"
  by (auto simp: yields_def)

lemma yields_bnd: "(\<And>x. yields P (f x)) \<Longrightarrow> yields P (bnd m f)"
  by (auto simp: yields_def bnd_def split: option.splits outcome.splits)

lemma yields_bnd_value:
  assumes "yields Q m" and "\<And>x. Q x \<Longrightarrow> yields P (f x)"
  shows "yields P (bnd m f)"
  unfolding yields_def
proof (intro allI impI)
  fix s a s' assume "bnd m f s = Some (Ok a s')"
  then obtain x s1 where m: "m s = Some (Ok x s1)" and f: "f x s1 = Some (Ok a s')"
    by (auto simp: bnd_def split: option.splits outcome.splits)
  from assms(1) m have "Q x" by (auto simp: yields_def)
  from assms(2) [OF this] f show "P a" by (auto simp: yields_def)
qed

lemma yields_ret: "P a \<Longrightarrow> yields P (ret a)"
  by (simp add: yields_def ret_def)

lemma yields_throw: "yields P (throw e)"
  by (simp add: yields_def throw_def)

lemma yields_addRunInst: "P (inst, errors) \<Longrightarrow> yields P (addRunInst inst errors)"
  by (auto simp: yields_def addRunInst_def)

lemma yields_if:
  "(c \<Longrightarrow> yields P a) \<Longrightarrow> (\<not> c \<Longrightarrow> yields P b) \<Longrightarrow> yields P (if c then a else b)"
  by simp

lemma yields_case_option:
  "(v = None \<Longrightarrow> yields P a) \<Longrightarrow> (\<And>x. v = Some x \<Longrightarrow> yields P (f x)) \<Longrightarrow>
   yields P (case v of None \<Rightarrow> a | Some x \<Rightarrow> f x)"
  by (cases v) simp_all

lemma yields_case_sum:
  "(\<And>x. yields P (f x)) \<Longrightarrow> (\<And>y. yields P (g y)) \<Longrightarrow>
   yields P (case v of Inl x \<Rightarrow> f x | Inr y \<Rightarrow> g y)"
  by (cases v) simp_all

lemma yields_case_prod:
  "(\<And>x y. yields P (f x y)) \<Longrightarrow> yields P (case v of (x, y) \<Rightarrow> f x y)"
  by (cases v) simp

lemmas yields_intros =
  yields_bnd yields_ret yields_throw yields_addRunInst yields_if yields_case_option
  yields_case_sum yields_case_prod

text \<open>Every method that parses a declaration or an instruction returns a node of its own
  class.\<close>

lemma onOff_kind: "yields notInvalid (onOff cfg suffix')"
  unfolding onOff_def by (intro yields_intros; simp add: notInvalid_def)

lemma command_kind: "yields notInvalid (command cfg)"
  unfolding command_def by (intro yields_intros; simp add: notInvalid_def)

lemma commandExpression_kind: "yields notInvalid (commandExpression cfg rec)"
  unfolding commandExpression_def by (intro yields_intros; simp add: notInvalid_def)

lemma unset_kind: "yields notInvalid (unset cfg)"
  unfolding unset_def by (intro yields_intros; simp add: notInvalid_def)

lemma unlock_kind: "yields notInvalid (unlock cfg)"
  unfolding unlock_def by (intro yields_intros; simp add: notInvalid_def)

lemma setInst_kind: "yields notInvalid (setInst cfg rec)"
  unfolding setInst_def by (intro yields_intros; simp add: notInvalid_def)

lemma lazyGlobal_kind: "yields notInvalid (lazyGlobal cfg)"
  unfolding lazyGlobal_def by (intro yields_intros; simp add: notInvalid_def)

lemma ifInst_kind: "yields notInvalid (ifInst cfg rec)"
  unfolding ifInst_def by (intro yields_intros; simp add: notInvalid_def)

lemma until_kind: "yields notInvalid (until cfg rec)"
  unfolding until_def by (intro yields_intros; simp add: notInvalid_def)

lemma fromInst_kind: "yields notInvalid (fromInst cfg rec)"
  unfolding fromInst_def by (intro yields_intros; simp add: notInvalid_def)

lemma whenInst_kind: "yields notInvalid (whenInst cfg rec)"
  unfolding whenInst_def by (intro yields_intros; simp add: notInvalid_def)

lemma returnInst_kind: "yields notInvalid (returnInst cfg rec)"
  unfolding returnInst_def by (intro yields_intros; simp add: notInvalid_def)

lemma breakInst_kind: "yields notInvalid (breakInst cfg)"
  unfolding breakInst_def by (intro yields_intros; simp add: notInvalid_def)

lemma switchInst_kind: "yields notInvalid (switchInst cfg rec)"
  unfolding switchInst_def by (intro yields_intros; simp add: notInvalid_def)

lemma forInst_kind: "yields notInvalid (forInst cfg rec)"
  unfolding forInst_def by (intro yields_intros; simp add: notInvalid_def)

lemma onInst_kind: "yields notInvalid (onInst cfg rec)"
  unfolding onInst_def by (intro yields_intros; simp add: notInvalid_def)

lemma toggle_kind: "yields notInvalid (toggle cfg rec)"
  unfolding toggle_def by (intro yields_intros; simp add: notInvalid_def)

lemma wait_kind: "yields notInvalid (wait cfg rec)"
  unfolding wait_def by (intro yields_intros; simp add: notInvalid_def)

lemma logInst_kind: "yields notInvalid (logInst cfg rec)"
  unfolding logInst_def by (intro yields_intros; simp add: notInvalid_def)

lemma copy_kind: "yields notInvalid (copy cfg rec)"
  unfolding copy_def by (intro yields_intros; simp add: notInvalid_def)

lemma rename_kind: "yields notInvalid (rename cfg rec)"
  unfolding rename_def by (intro yields_intros; simp add: notInvalid_def)

lemma delete_kind: "yields notInvalid (delete cfg rec)"
  unfolding delete_def by (intro yields_intros; simp add: notInvalid_def)

lemma runInst_kind: "yields notInvalid (runInst cfg rec)"
  unfolding runInst_def by (intro yields_intros; simp add: notInvalid_def)

lemma runPath_kind: "yields notInvalid (runPath cfg rec)"
  unfolding runPath_def by (intro yields_intros; simp add: notInvalid_def)

lemma runPathOnce_kind: "yields notInvalid (runPathOnce cfg rec)"
  unfolding runPathOnce_def by (intro yields_intros; simp add: notInvalid_def)

lemma compile_kind: "yields notInvalid (compile cfg rec)"
  unfolding compile_def by (intro yields_intros; simp add: notInvalid_def)

lemma listInst_kind: "yields notInvalid (listInst cfg)"
  unfolding listInst_def by (intro yields_intros; simp add: notInvalid_def)

lemma printInst_kind: "yields notInvalid (printInst cfg rec)"
  unfolding printInst_def by (intro yields_intros; simp add: notInvalid_def)

lemma instructionBlock_kind: "yields notInvalid (instructionBlock cfg rec)"
  unfolding instructionBlock_def by (intro yields_intros; simp add: notInvalid_def)

lemma declareFunction_parser_kind: "yields notInvalid (declareFunction_parser cfg rec scope')"
  unfolding declareFunction_parser_def by (intro yields_intros; simp add: notInvalid_def)

lemma declareParameter_parser_kind: "yields notInvalid (declareParameter_parser cfg rec scope')"
  unfolding declareParameter_parser_def by (intro yields_intros; simp add: notInvalid_def)

lemma declareLock_parser_kind: "yields notInvalid (declareLock_parser cfg rec scope')"
  unfolding declareLock_parser_def by (intro yields_intros; simp add: notInvalid_def)

lemma declareVariable_parser_kind: "yields notInvalid (declareVariable_parser cfg rec scope')"
  unfolding declareVariable_parser_def by (intro yields_intros; simp add: notInvalid_def)

lemma identifierLedInstruction_kind: "yields notInvalid (identifierLedInstruction cfg rec)"
  unfolding identifierLedInstruction_def
  apply (rule yields_bnd)
  apply (rule yields_bnd)
  apply (rule yields_if)
   apply (rule yields_bnd_value [OF onOff_kind])
   apply (simp add: yields_ret notInvalid_def)
  apply (intro yields_intros; simp add: notInvalid_def)
  done

lemma defineInst_kind: "yields notInvalid (defineInst cfg rec)"
  unfolding defineInst_def
  by (intro yields_intros declareFunction_parser_kind declareParameter_parser_kind
      declareLock_parser_kind declareVariable_parser_kind)

lemma instruction_kind: "yields notInvalid (instruction cfg rec)"
  unfolding instruction_def
  by (intro yields_bnd yields_if yields_throw instructionBlock_kind
      identifierLedInstruction_kind command_kind commandExpression_kind unset_kind unlock_kind
      setInst_kind lazyGlobal_kind ifInst_kind until_kind fromInst_kind whenInst_kind
      returnInst_kind breakInst_kind switchInst_kind forInst_kind onInst_kind toggle_kind
      wait_kind logInst_kind copy_kind rename_kind delete_kind runInst_kind runPath_kind
      runPathOnce_kind compile_kind listInst_kind printInst_kind yields_ret)
    (simp add: notInvalid_def)

lemma statement_kind: "yields notInvalid (statement cfg rec)"
  unfolding statement_def
  by (intro yields_bnd yields_if defineInst_kind instruction_kind)

subsection \<open>The statements of the top level\<close>

text \<open>
  What happens to one statement of the top level: it is parsed, to a node and the errors
  found inside it, or it fails with a parse error, and the parser synchronizes; the two
  numbers are the cursor at the start of the statement and the cursor after
  \<open>synchronize\<close>.
\<close>

datatype attempt = Parsed Node "ParseError list" | Failed ParseError nat nat

text \<open>
  The statements of the top level from a state of the parser on, as \<open>declaration\<close> finds
  them: the \<open>try\<close> body (\<open>statement\<close>) is run at the cursor until the token \<open>eof\<close>,
  and \<open>synchronize\<close> after a failure. At most \<open>k\<close> statements are followed; \<open>rec\<close> is
  the table of the methods that are called.
\<close>

fun topLevel ::
  "ParserConfig \<Rightarrow> rec_table \<Rightarrow> nat \<Rightarrow> Parser \<Rightarrow> (attempt list \<times> Parser) option" where
  "topLevel cfg rec 0 s = None"
| "topLevel cfg rec (Suc k) s =
     (if ptype s = tt_eof then Some ([], s)
      else
        case statement cfg rec s of
          Some (Ok r s1) \<Rightarrow>
            map_option (\<lambda>(as, s'). (Parsed (fst r) (snd r) # as, s')) (topLevel cfg rec k s1)
        | Some (Throw e s1) \<Rightarrow>
            (case synchronize rec e s1 of
               Some (Ok x s2) \<Rightarrow>
                 map_option (\<lambda>(as, s'). (Failed e (current s) (current s2) # as, s'))
                   (topLevel cfg rec k s2)
             | _ \<Rightarrow> None)
        | _ \<Rightarrow> None)"

text \<open>The node of the script for a statement, and the errors reported for it.\<close>

fun attemptNode :: "IToken list \<Rightarrow> attempt \<Rightarrow> Node" where
  "attemptNode toks (Parsed node errors) = node"
| "attemptNode toks (Failed e a b) =
     Node ''Inst.Invalid'' [Nodes (map Token (take (b - a) (drop a toks)))]"

fun attemptErrors :: "attempt \<Rightarrow> ParseError list" where
  "attemptErrors (Parsed node errors) = errors"
| "attemptErrors (Failed e a b) = [e]"

fun isFailed :: "attempt \<Rightarrow> bool" where
  "isFailed (Parsed node errors) = False"
| "isFailed (Failed e a b) = True"

text \<open>
  A parsed statement is no \<open>Inst.Invalid\<close>; a failed statement skips at least one token,
  and never the token \<open>eof\<close>, the last of the \<open>n + 1\<close> tokens.
\<close>

fun soundAttempt :: "nat \<Rightarrow> attempt \<Rightarrow> bool" where
  "soundAttempt n (Parsed node errors) = (nodeKind node \<noteq> ''Inst.Invalid'')"
| "soundAttempt n (Failed e a b) = (a < b \<and> b \<le> n)"

lemma declarationInst_unfold:
  "declarationInst cfg rec s =
     (case statement cfg rec s of
        None \<Rightarrow> None
      | Some (Ok r s1) \<Rightarrow> Some (Ok r s1)
      | Some Crash \<Rightarrow> Some Crash
      | Some (Throw e s1) \<Rightarrow>
          (case synchronize rec e s1 of
             None \<Rightarrow> None
           | Some (Ok x s2) \<Rightarrow>
               Some (Ok (Node ''Inst.Invalid''
                           [Nodes (map Token (take (current s2 - current s)
                                                (drop (current s) (tokens s2))))], [e]) s2)
           | Some (Throw e' s2) \<Rightarrow> Some (Throw e' s2)
           | Some Crash \<Rightarrow> Some Crash))"
  by (simp add: declarationInst_def bnd_def tryCatch_def getCurrent_def tokensSlice_def ret_def
      split: option.splits outcome.splits)

text \<open>
  The loop of \<open>parse\<close> from a state of the parser at work: it appends the nodes and the
  errors of the statements of the top level.
\<close>

lemma parseLoop_topLevel:
  assumes idk: "isValidIdentifier cfg tt_identifier"
  shows "wf s \<Longrightarrow> n \<le> F \<Longrightarrow> 16 * length (tokens s) + 14 < n + 16 * current s \<Longrightarrow>
         length (tokens s) \<le> k + current s \<Longrightarrow>
         \<exists>as s'. topLevel cfg (parserRec cfg F) k s = Some (as, s') \<and>
           parserRec cfg n (ParseLoop is es) s
             = Some (Ok (Nodes (is @ map (attemptNode (tokens s)) as),
                         es @ concat (map attemptErrors as)) s') \<and>
           tokens s' = tokens s \<and> list_all (soundAttempt (length (tokens s) - 1)) as"
proof (induction k arbitrary: s n "is" es)
  case 0
  from wf_bound [OF 0(1)] 0(4) show ?case by simp
next
  case (Suc k)
  note w = Suc.prems(1)
  from Suc.prems(3) wf_bound [OF w] obtain m where n: "n = Suc (Suc m)"
    by (cases n; cases "n - 1") auto
  from Suc.prems(2) n have mF: "m \<le> F" and mF': "Suc m \<le> F" by simp_all
  from Suc.prems(3) n have B: "16 * length (tokens s) + 13 \<le> m + 16 * current s" by simp
  show ?case
  proof (cases "ptype s = tt_eof")
    case True
    with w show ?thesis
      by (simp add: n body_def parseLoop_def isAtEnd_wf bnd_def ret_def)
  next
    case False
    have loop: "parserRec cfg n (ParseLoop is es) s
                  = bnd (declarationInst cfg (parserRec cfg m))
                      (\<lambda>r. parserRec cfg (Suc m) (ParseLoop (is @ [fst r]) (es @ snd r))) s"
      using w False by (simp add: n body_def parseLoop_def isAtEnd_wf bnd_def)
    from declarationInst_ok [OF parserRec_ok [OF idk mF] w idk B]
    obtain a sd where d: "declarationInst cfg (parserRec cfg m) s = Some (Ok a sd)"
      and ad: "adv s sd" and pd: "current s < current sd"
      using False by (auto elim!: hoare2D split: outcome.splits)
    from ad have wd: "wf sd" and td: "tokens sd = tokens s"
      and bd: "current sd < length (tokens s)"
      by (simp_all add: adv_def)
    from Suc.prems(3) n pd td
    have Bd: "16 * length (tokens sd) + 14 < Suc m + 16 * current sd" by simp
    from Suc.prems(4) pd td have kd: "length (tokens sd) \<le> k + current sd" by simp
    from Suc.IH [OF wd mF' Bd kd, of "is @ [fst a]" "es @ snd a"]
    obtain as s' where
      t: "topLevel cfg (parserRec cfg F) k sd = Some (as, s')"
      and r: "parserRec cfg (Suc m) (ParseLoop (is @ [fst a]) (es @ snd a)) sd
                = Some (Ok (Nodes ((is @ [fst a]) @ map (attemptNode (tokens sd)) as),
                            (es @ snd a) @ concat (map attemptErrors as)) s')"
      and ts: "tokens s' = tokens sd"
      and sk: "list_all (soundAttempt (length (tokens sd) - 1)) as"
      by blast
    from statement_ok [OF parserRec_ok [OF idk mF] w idk B]
    obtain out where s1: "statement cfg (parserRec cfg m) s = Some out"
      and s2: "statement cfg (parserRec cfg F) s = Some out"
      and so: "case out of Ok a s' \<Rightarrow> adv s s' \<and> (ptype s \<noteq> tt_eof \<longrightarrow> current s < current s')
               | Throw e s' \<Rightarrow> adv s s' \<and>
                   (ptype s \<noteq> tt_eof \<longrightarrow> failedInst e = None \<or> current s < current s')
               | Crash \<Rightarrow> False"
      by (rule hoare2D)
    show ?thesis
    proof (cases out)
      case (Ok r1 s1')
      with d s1 have "a = r1" "sd = s1'" by (auto simp: declarationInst_unfold)
      moreover from s1 Ok have "statement cfg (parserRec cfg m) s = Some (Ok r1 s1')" by simp
      from yieldsD [OF statement_kind this]
      have "nodeKind (fst r1) \<noteq> ''Inst.Invalid''" by (simp add: notInvalid_def)
      ultimately show ?thesis
        using Ok s2 t r ts sk td False by (simp add: loop d bnd_def)
    next
      case (Throw e s1')
      with so have a1: "adv s s1'"
        and p1: "failedInst e = None \<or> current s < current s1'"
        using False by simp_all
      from a1 have w1: "wf s1'" and t1: "tokens s1' = tokens s" and c1: "current s \<le> current s1'"
        by (simp_all add: adv_def)
      from p1 have pos: "failedInst e \<noteq> None \<longrightarrow> 0 < current s1'" by auto
      from B t1 c1 have B1: "16 * length (tokens s1') + 12 < m + 16 * current s1'" by simp
      from synchronize_ok [OF parserRec_ok [OF idk mF] w1 pos B1]
      obtain out2 where y1: "synchronize (parserRec cfg m) e s1' = Some out2"
        and y2: "synchronize (parserRec cfg F) e s1' = Some out2"
        and yo: "case out2 of Ok a s' \<Rightarrow> adv s1' s' \<and>
                     (failedInst e = None \<longrightarrow> ptype s1' \<noteq> tt_eof \<longrightarrow> current s1' < current s')
                 | Throw e s' \<Rightarrow> False | Crash \<Rightarrow> False"
        by (rule hoare2D)
      from yo obtain x s2' where o2: "out2 = Ok x s2'" by (cases out2) simp_all
      from d s1 Throw y1 o2
      have a: "a = (Node ''Inst.Invalid''
                      [Nodes (map Token (take (current s2' - current s)
                                           (drop (current s) (tokens s2'))))], [e])"
        and sd: "sd = s2'"
        by (auto simp: declarationInst_unfold)
      from Throw s2 y2 o2 t r ts sk td False pd bd sd a show ?thesis
        by (simp add: loop d bnd_def)
    next
      case Crash
      with so show ?thesis by simp
    qed
  qed
qed

lemma invalid_nodes_are_failed:
  "list_all (soundAttempt n) as \<Longrightarrow>
   length (filter (\<lambda>node. nodeKind node = ''Inst.Invalid'') (map (attemptNode toks) as))
     = length (filter isFailed as)"
proof (induction as)
  case Nil
  show ?case by simp
next
  case (Cons a as)
  then show ?case by (cases a) simp_all
qed

lemma attempts_parsed_or_failed:
  "length as = length (filter (Not \<circ> isFailed) as) + length (filter isFailed as)"
  by (induction as) simp_all

text \<open>
  C2. Let \<open>isValidIdentifier\<close> (entities/tokentypes, not under src) accept the kind
  \<open>identifier\<close>. The script that \<open>parse\<close> returns has one node for each statement of
  the top level, in their order: for a statement that is parsed its node, which is no
  \<open>Inst.Invalid\<close>, and for a statement that fails one \<open>Inst.Invalid\<close> of the tokens from
  the start of the statement to the cursor after \<open>synchronize\<close>, at least one token and
  never the token \<open>eof\<close>. So the script has as many nodes as there are parsed and failed
  statements, as many \<open>Inst.Invalid\<close> among them as failed statements, and the errors of
  \<open>parse\<close> are the errors of the statements, the error of a failed statement once.
\<close>

theorem failed_statement_is_one_invalid_node:
  assumes "isValidIdentifier cfg tt_identifier" and "16 * length toks + 31 \<le> fuel"
  shows "\<exists>as s' r.
           topLevel cfg (parserRec cfg fuel) (Suc (length toks)) (newParser toks)
             = Some (as, s') \<and>
           parse cfg fuel toks = Some r \<and>
           script r = map (attemptNode (toks @ [eof toks])) as \<and>
           parseErrors r = concat (map attemptErrors as) \<and>
           length (script r)
             = length (filter (Not \<circ> isFailed) as) + length (filter isFailed as) \<and>
           length (filter (\<lambda>node. nodeKind node = ''Inst.Invalid'') (script r))
             = length (filter isFailed as) \<and>
           list_all (soundAttempt (length toks)) as"
proof (cases "ptype (newParser toks) = tt_eof")
  case True
  from assms(2) obtain n where n: "fuel = Suc n" by (cases fuel) auto
  from True have "parserRec cfg fuel (ParseLoop [] []) (newParser toks)
                    = Some (Ok (Nodes [], []) (newParser toks))"
    by (simp add: n body_def parseLoop_atEnd)
  with True show ?thesis by (simp add: parse_def)
next
  case False
  then have w: "wf (newParser toks)" by (rule newParser_wf)
  from assms(2) have B: "16 * length (tokens (newParser toks)) + 14
                           < fuel + 16 * current (newParser toks)" by simp
  have k: "length (tokens (newParser toks)) \<le> Suc (length toks) + current (newParser toks)"
    by simp
  from parseLoop_topLevel [OF assms(1) w le_refl B k, of "[]" "[]"]
  obtain as s' where
    t: "topLevel cfg (parserRec cfg fuel) (Suc (length toks)) (newParser toks) = Some (as, s')"
    and r: "parserRec cfg fuel (ParseLoop [] []) (newParser toks)
              = Some (Ok (Nodes (map (attemptNode (toks @ [eof toks])) as),
                          concat (map attemptErrors as)) s')"
    and sk: "list_all (soundAttempt (length toks)) as"
    by auto
  from t r sk attempts_parsed_or_failed [of as]
    invalid_nodes_are_failed [OF sk, of "toks @ [eof toks]"]
  show ?thesis by (simp add: parse_def)
qed

text \<open>
  The theorem at \<open>print. print 1.\<close>: the first statement fails, for \<open>print\<close> wants an
  expression, and the second one is parsed.
\<close>

definition example_statements :: "IToken list" where
  "example_statements = map example_token [tt_print, tt_period, tt_print, tt_integer, tt_period]"

lemma example_statements_attempts:
  "map_option (map isFailed \<circ> fst)
     (topLevel example_cfg (parserRec example_cfg 111) 6 (newParser example_statements))
     = Some [True, False]"
  by code_simp

lemma example_statements_script:
  "map_option (map nodeKind \<circ> script) (parse example_cfg 111 example_statements)
     = Some [''Inst.Invalid'', ''Inst.Print'']"
  by code_simp

theorem failed_statement_is_one_invalid_node_witness:
  "isValidIdentifier example_cfg tt_identifier \<and>
   16 * length example_statements + 31 \<le> (111::nat) \<and>
   (\<exists>as s' r.
      topLevel example_cfg (parserRec example_cfg 111) (Suc (length example_statements))
        (newParser example_statements) = Some (as, s') \<and>
      parse example_cfg 111 example_statements = Some r \<and>
      script r = map (attemptNode (example_statements @ [eof example_statements])) as \<and>
      parseErrors r = concat (map attemptErrors as) \<and>
      length (script r)
        = length (filter (Not \<circ> isFailed) as) + length (filter isFailed as) \<and>
      length (filter (\<lambda>node. nodeKind node = ''Inst.Invalid'') (script r))
        = length (filter isFailed as) \<and>
      list_all (soundAttempt (length example_statements)) as) \<and>
   map_option (map isFailed \<circ> fst)
     (topLevel example_cfg (parserRec example_cfg 111) 6 (newParser example_statements))
     = Some [True, False] \<and>
   map_option (map nodeKind \<circ> script) (parse example_cfg 111 example_statements)
     = Some [''Inst.Invalid'', ''Inst.Print'']"
proof -
  have c: "isValidIdentifier example_cfg tt_identifier"
    and f: "16 * length example_statements + 31 \<le> (111::nat)"
    by (simp_all add: example_cfg_def example_statements_def)
  from failed_statement_is_one_invalid_node [OF c f] c f
    example_statements_attempts example_statements_script
  show ?thesis by blast
qed

end
